theory Spec2Isabelle
  imports Main "HOL-Library.Multiset"
begin

section \<open>SortableSet (lib/util/SortableSet.js)\<close>

text \<open>
  A JavaScript \<^verbatim>\<open>Set\<close> iterates in insertion order and never holds a value twice.
  It is modelled by the list of its members in iteration order.  \<^verbatim>\<open>Set.prototype.add\<close>
  appends a value that is absent and leaves the set alone otherwise,
  \<^verbatim>\<open>Set.prototype.delete\<close> takes the value out.
\<close>

definition Set_add :: "'a \<Rightarrow> 'a list \<Rightarrow> 'a list" where
  "Set_add v xs = (if v \<in> set xs then xs else xs @ [v])"

definition Set_delete :: "'a \<Rightarrow> 'a list \<Rightarrow> 'a list" where
  "Set_delete v xs = removeAll v xs"

text \<open>
  \<^verbatim>\<open>class SortableSet extends Set\<close> adds three fields.  A comparator is a function
  object; what \<^verbatim>\<open>sortWith\<close> asks of it is its identity (\<^verbatim>\<open>===\<close>) and its result on
  two members.  A comparator is therefore a reference of type \<open>'f\<close>, compared by
  equality, and a table \<open>call\<close> gives the function each reference denotes.
  \<^verbatim>\<open>_lastActiveSortFn\<close> is \<^verbatim>\<open>null\<close> (\<open>None\<close>) or a comparator.  Every set of
  \<^verbatim>\<open>Chunk.js\<close> is constructed with a default comparator, and \<^verbatim>\<open>_sortFn\<close> is one here;
  \<^verbatim>\<open>noCache\<close>, when it is not passed, is falsy (\<open>False\<close>).
\<close>

record ('a, 'f) SortableSet =
  items :: "'a list"
  sortFn :: "'f"
  lastActiveSortFn :: "'f option"
  noCache :: bool

text \<open>
  The constructor: \<^verbatim>\<open>super(initialIterable)\<close> adds every value of the iterable, then the
  three fields are assigned.
\<close>

definition new_SortableSet :: "'a list \<Rightarrow> 'f \<Rightarrow> bool \<Rightarrow> ('a, 'f) SortableSet" where
  "new_SortableSet initialIterable defaultSort nc =
     \<lparr>items = fold Set_add initialIterable [], sortFn = defaultSort,
      lastActiveSortFn = None, noCache = nc\<rparr>"

text \<open>\<^verbatim>\<open>add(value) { this._lastActiveSortFn = null; super.add(value); return this; }\<close>\<close>

definition SortableSet_add :: "'a \<Rightarrow> ('a, 'f) SortableSet \<Rightarrow> ('a, 'f) SortableSet" where
  "SortableSet_add v s = s\<lparr>lastActiveSortFn := None, items := Set_add v (items s)\<rparr>"

text \<open>\<^verbatim>\<open>delete\<close>, \<^verbatim>\<open>has\<close>, \<^verbatim>\<open>clear\<close> and \<^verbatim>\<open>size\<close> are inherited from \<^verbatim>\<open>Set\<close> unchanged.\<close>

definition SortableSet_delete :: "'a \<Rightarrow> ('a, 'f) SortableSet \<Rightarrow> ('a, 'f) SortableSet" where
  "SortableSet_delete v s = s\<lparr>items := Set_delete v (items s)\<rparr>"

definition SortableSet_has :: "('a, 'f) SortableSet \<Rightarrow> 'a \<Rightarrow> bool" where
  "SortableSet_has s v = (v \<in> set (items s))"

definition SortableSet_clear :: "('a, 'f) SortableSet \<Rightarrow> ('a, 'f) SortableSet" where
  "SortableSet_clear s = s\<lparr>items := []\<rparr>"

definition SortableSet_size :: "('a, 'f) SortableSet \<Rightarrow> nat" where
  "SortableSet_size s = length (items s)"

text \<open>
  \<^verbatim>\<open>Array.prototype.sort(sortFn)\<close>.  The language fixes the result for a consistent
  comparator (a stable sort) and leaves the algorithm open.  The model is a stable
  insertion sort that also returns how many times it called the comparator; a member
  moves right past the members the comparator puts strictly before it.
\<close>

fun sort_insert :: "('a \<Rightarrow> 'a \<Rightarrow> int) \<Rightarrow> 'a \<Rightarrow> 'a list \<Rightarrow> 'a list \<times> nat" where
  "sort_insert cmp x [] = ([x], 0)"
| "sort_insert cmp x (y # ys) =
     (if cmp x y \<le> 0 then (x # y # ys, 1)
      else (case sort_insert cmp x ys of (zs, n) \<Rightarrow> (y # zs, Suc n)))"

fun Array_sort :: "('a \<Rightarrow> 'a \<Rightarrow> int) \<Rightarrow> 'a list \<Rightarrow> 'a list \<times> nat" where
  "Array_sort cmp [] = ([], 0)"
| "Array_sort cmp (x # xs) =
     (case Array_sort cmp xs of (ys, n) \<Rightarrow>
        (case sort_insert cmp x ys of (zs, m) \<Rightarrow> (zs, n + m)))"

text \<open>
  \<^verbatim>\<open>
  sortWith(sortFn) {
    if(!this.noCache && (this.size === 0 || sortFn === this._lastActiveSortFn)) return;
    const sortedArray = Array.from(this).sort(sortFn);
    this.clear();
    for(let i = 0; i < sortedArray.length; i += 1) super.add(sortedArray[i]);
    this._lastActiveSortFn = sortFn;
  }
  \<close>
  The model returns the set and the number of comparator calls made.
\<close>

definition sortWith ::
  "('f \<Rightarrow> 'a \<Rightarrow> 'a \<Rightarrow> int) \<Rightarrow> 'f \<Rightarrow> ('a, 'f) SortableSet \<Rightarrow> ('a, 'f) SortableSet \<times> nat" where
  "sortWith call f s =
     (if \<not> noCache s \<and> (SortableSet_size s = 0 \<or> Some f = lastActiveSortFn s) then (s, 0)
      else (case Array_sort (call f) (items s) of (sortedArray, n) \<Rightarrow>
              ((SortableSet_clear s)\<lparr>items := fold Set_add sortedArray [],
                                     lastActiveSortFn := Some f\<rparr>, n)))"

text \<open>\<^verbatim>\<open>sort() { this.sortWith(this._sortFn); }\<close>\<close>

definition SortableSet_sort ::
  "('f \<Rightarrow> 'a \<Rightarrow> 'a \<Rightarrow> int) \<Rightarrow> ('a, 'f) SortableSet \<Rightarrow> ('a, 'f) SortableSet \<times> nat" where
  "SortableSet_sort call s = sortWith call (sortFn s) s"

text \<open>The comparator of the scenario: ascending order on numbers.\<close>

definition ascending :: "int \<Rightarrow> int \<Rightarrow> int" where
  "ascending a b = a - b"

text \<open>
  A comparator orders consistently when it is total and transitive, read as
  \<open>a\<close> may stand before \<open>b\<close> iff \<open>cmp a b \<le> 0\<close>.
\<close>

definition consistent :: "('a \<Rightarrow> 'a \<Rightarrow> int) \<Rightarrow> bool" where
  "consistent cmp \<longleftrightarrow>
     (\<forall>a b. 0 < cmp a b \<longrightarrow> cmp b a \<le> 0) \<and>
     (\<forall>a b c. cmp a b \<le> 0 \<longrightarrow> cmp b c \<le> 0 \<longrightarrow> cmp a c \<le> 0)"

section \<open>The heap of chunks, blocks, origins and modules\<close>

text \<open>
  Chunks, blocks, origins and modules are JavaScript objects that refer to each other
  and are mutated in place.  They are modelled by references (numbers) into a heap with
  one store per kind of object; two references are the same object iff they are equal.
  The fields of \<^verbatim>\<open>Chunk\<close> are \<^verbatim>\<open>_modules\<close>, \<^verbatim>\<open>entrypoints\<close>, \<^verbatim>\<open>_chunks\<close>, \<^verbatim>\<open>_parents\<close>,
  \<^verbatim>\<open>blocks\<close> and \<^verbatim>\<open>origins\<close>; \<^verbatim>\<open>id\<close>, \<^verbatim>\<open>ids\<close>, \<^verbatim>\<open>debugId\<close>, \<^verbatim>\<open>name\<close>, \<^verbatim>\<open>files\<close> and \<^verbatim>\<open>rendered\<close>
  are read by no operation modelled here and are left out.
\<close>

type_synonym chunk_ref = nat
type_synonym block_ref = nat
type_synonym origin_ref = nat
type_synonym module_ref = nat
type_synonym entrypoint_ref = nat
type_synonym reason = string

text \<open>The two comparators of \<^verbatim>\<open>Chunk.js\<close>, as references.\<close>

datatype sortfn = sortById | sortByIdentifier

record chunk =
  c_modules :: "(module_ref, sortfn) SortableSet"
  c_entrypoints :: "entrypoint_ref list"
  c_chunks :: "(chunk_ref, sortfn) SortableSet"
  c_parents :: "(chunk_ref, sortfn) SortableSet"
  c_blocks :: "block_ref list"
  c_origins :: "origin_ref list"

text \<open>
  A \<^verbatim>\<open>DependenciesBlock\<close>: \<^verbatim>\<open>identifier\<close> is a method that a block may lack (\<open>None\<close>),
  modelled by the string it returns; \<^verbatim>\<open>parent\<close> is set by \<^verbatim>\<open>addBlock\<close>; \<^verbatim>\<open>blocks\<close> are
  the child blocks; \<^verbatim>\<open>chunks\<close> is \<^verbatim>\<open>null\<close> (\<open>None\<close>) or an array of chunks, and
  \<^verbatim>\<open>chunkReason\<close> is unset (\<open>None\<close>) or a reason.
\<close>

record block =
  b_identifier :: "string option"
  b_parent :: "block_ref option"
  b_blocks :: "block_ref list"
  b_chunks :: "chunk_ref list option"
  b_chunkReason :: "reason option"

text \<open>An origin \<^verbatim>\<open>{module, loc, name}\<close>, with \<^verbatim>\<open>reasons\<close> unset until \<^verbatim>\<open>integrate\<close> sets it.\<close>

record origin =
  o_module :: module_ref
  o_reasons :: "reason list option"

text \<open>
  Modelled from the spec: the class \<^verbatim>\<open>Module\<close> is not among the sources.  A module has a
  size (\<^verbatim>\<open>size()\<close>) and keeps back-references to the chunks it is in.
\<close>

record modul =
  m_size :: int
  m_chunks :: "chunk_ref list"

record heap =
  chunk_at :: "chunk_ref \<Rightarrow> chunk"
  block_at :: "block_ref \<Rightarrow> block"
  origin_at :: "origin_ref \<Rightarrow> origin"
  module_at :: "module_ref \<Rightarrow> modul"
  entrypoint_at :: "entrypoint_ref \<Rightarrow> chunk_ref list"

definition upd_chunk :: "chunk_ref \<Rightarrow> (chunk \<Rightarrow> chunk) \<Rightarrow> heap \<Rightarrow> heap" where
  "upd_chunk c f h = h\<lparr>chunk_at := (chunk_at h)(c := f (chunk_at h c))\<rparr>"

definition upd_block :: "block_ref \<Rightarrow> (block \<Rightarrow> block) \<Rightarrow> heap \<Rightarrow> heap" where
  "upd_block b f h = h\<lparr>block_at := (block_at h)(b := f (block_at h b))\<rparr>"

definition upd_origin :: "origin_ref \<Rightarrow> (origin \<Rightarrow> origin) \<Rightarrow> heap \<Rightarrow> heap" where
  "upd_origin r f h = h\<lparr>origin_at := (origin_at h)(r := f (origin_at h r))\<rparr>"

definition upd_module :: "module_ref \<Rightarrow> (modul \<Rightarrow> modul) \<Rightarrow> heap \<Rightarrow> heap" where
  "upd_module m f h = h\<lparr>module_at := (module_at h)(m := f (module_at h m))\<rparr>"

text \<open>\<^verbatim>\<open>new Chunk(name)\<close>, without an origin module.\<close>

definition new_Chunk :: chunk where
  "new_Chunk =
     \<lparr>c_modules = new_SortableSet [] sortByIdentifier False, c_entrypoints = [],
      c_chunks = new_SortableSet [] sortById False,
      c_parents = new_SortableSet [] sortById False, c_blocks = [], c_origins = []\<rparr>"

text \<open>
  A thrown exception leaves the heap as it is at the throw.  An operation that can throw
  returns \<open>Inl (e, h)\<close> for the exception \<open>e\<close> thrown in heap \<open>h\<close>, and \<open>Inr h\<close> when it
  returns.  \<^verbatim>\<open>TypeError\<close> is what reading a property of \<^verbatim>\<open>null\<close> throws; the other four
  are the faults of \<^verbatim>\<open>checkConstraints\<close>, with the two chunks their messages name.
\<close>

datatype error =
  TypeError
  | DuplicateChild chunk_ref chunk_ref
  | ChildMissingParent chunk_ref chunk_ref
  | DuplicateParent chunk_ref chunk_ref
  | ParentMissingChild chunk_ref chunk_ref

fun heap_of :: "(error \<times> heap) + heap \<Rightarrow> heap" where
  "heap_of (Inl (e, h)) = h"
| "heap_of (Inr h) = h"

text \<open>\<^verbatim>\<open>Array.prototype.indexOf\<close>: the first index of the item, or -1.\<close>

fun indexOf :: "'a list \<Rightarrow> 'a \<Rightarrow> int" where
  "indexOf [] v = -1"
| "indexOf (x # xs) v =
     (if x = v then 0 else (let i = indexOf xs v in if i < 0 then -1 else i + 1))"

section \<open>Chunk: membership and edges\<close>

text \<open>\<^verbatim>\<open>isInitial() { return this.entrypoints.length > 0; }\<close>\<close>

definition isInitial :: "chunk_ref \<Rightarrow> heap \<Rightarrow> bool" where
  "isInitial this h = (length (c_entrypoints (chunk_at h this)) > 0)"

text \<open>
  \<^verbatim>\<open>
  addToCollection(collection, item) {
    if(item === this) return false;
    if(collection.indexOf(item) > -1) return false;
    collection.push(item);
    return true;
  }
  \<close>
  Whether the item is this chunk is passed as \<open>item_is_this\<close>: the one caller,
  \<^verbatim>\<open>addBlock\<close>, passes a block, which is never a chunk.
\<close>

definition addToCollection :: "bool \<Rightarrow> 'a list \<Rightarrow> 'a \<Rightarrow> bool \<times> 'a list" where
  "addToCollection item_is_this collection item =
     (if item_is_this then (False, collection)
      else if indexOf collection item > -1 then (False, collection)
      else (True, collection @ [item]))"

definition addChunk :: "chunk_ref \<Rightarrow> chunk_ref \<Rightarrow> heap \<Rightarrow> bool \<times> heap" where
  "addChunk this chunk h =
     (if SortableSet_has (c_chunks (chunk_at h this)) chunk then (False, h)
      else (True, upd_chunk this (\<lambda>c. c\<lparr>c_chunks := SortableSet_add chunk (c_chunks c)\<rparr>) h))"

definition addParent :: "chunk_ref \<Rightarrow> chunk_ref \<Rightarrow> heap \<Rightarrow> bool \<times> heap" where
  "addParent this parentChunk h =
     (if SortableSet_has (c_parents (chunk_at h this)) parentChunk then (False, h)
      else (True, upd_chunk this
                    (\<lambda>c. c\<lparr>c_parents := SortableSet_add parentChunk (c_parents c)\<rparr>) h))"

definition addModule :: "chunk_ref \<Rightarrow> module_ref \<Rightarrow> heap \<Rightarrow> bool \<times> heap" where
  "addModule this module h =
     (if \<not> SortableSet_has (c_modules (chunk_at h this)) module
      then (True, upd_chunk this
                    (\<lambda>c. c\<lparr>c_modules := SortableSet_add module (c_modules c)\<rparr>) h)
      else (False, h))"

definition addBlock :: "chunk_ref \<Rightarrow> block_ref \<Rightarrow> heap \<Rightarrow> bool \<times> heap" where
  "addBlock this blk h =
     (case addToCollection False (c_blocks (chunk_at h this)) blk of
        (r, collection) \<Rightarrow> (r, upd_chunk this (\<lambda>c. c\<lparr>c_blocks := collection\<rparr>) h))"

text \<open>
  Modelled from the spec: \<^verbatim>\<open>Module.removeChunk(chunk)\<close>, the hook by which a module drops
  its back-reference to a chunk.  The comment in \<^verbatim>\<open>Chunk.remove\<close> records that the hook
  also modifies the chunk's \<^verbatim>\<open>_modules\<close>: a module that held the chunk is taken out of it.
  \<^verbatim>\<open>Module.addChunk(chunk)\<close> attaches the back-reference, and
  \<^verbatim>\<open>rewriteChunkInReasons\<close> rewrites the module's provenance, which is not part of
  this heap.
\<close>

definition Module_removeChunk :: "module_ref \<Rightarrow> chunk_ref \<Rightarrow> heap \<Rightarrow> bool \<times> heap" where
  "Module_removeChunk module chunk h =
     (if chunk \<in> set (m_chunks (module_at h module))
      then (True, upd_chunk chunk
                    (\<lambda>c. c\<lparr>c_modules := SortableSet_delete module (c_modules c)\<rparr>)
                    (upd_module module (\<lambda>m. m\<lparr>m_chunks := remove1 chunk (m_chunks m)\<rparr>) h))
      else (False, h))"

definition Module_addChunk :: "module_ref \<Rightarrow> chunk_ref \<Rightarrow> heap \<Rightarrow> heap" where
  "Module_addChunk module chunk h =
     (if chunk \<in> set (m_chunks (module_at h module)) then h
      else upd_module module (\<lambda>m. m\<lparr>m_chunks := m_chunks m @ [chunk]\<rparr>) h)"

definition Module_rewriteChunkInReasons ::
  "module_ref \<Rightarrow> chunk_ref \<Rightarrow> chunk_ref list \<Rightarrow> heap \<Rightarrow> heap" where
  "Module_rewriteChunkInReasons module oldChunk newChunks h = h"

text \<open>
  \<^verbatim>\<open>
  removeModule(module) {
    if(this._modules.delete(module)) { module.removeChunk(this); return true; }
    return false;
  }
  \<close>
\<close>

definition removeModule :: "chunk_ref \<Rightarrow> module_ref \<Rightarrow> heap \<Rightarrow> bool \<times> heap" where
  "removeModule this module h =
     (if SortableSet_has (c_modules (chunk_at h this)) module
      then (True, snd (Module_removeChunk module this
                    (upd_chunk this
                       (\<lambda>c. c\<lparr>c_modules := SortableSet_delete module (c_modules c)\<rparr>) h)))
      else (False, h))"

text \<open>
  \<^verbatim>\<open>
  removeChunk(chunk) {
    if(!this._chunks.has(chunk)) return false;
    this._chunks.delete(chunk);
    chunk.removeParent(this);
    return true;
  }
  removeParent(chunk) {
    if(!this._parents.has(chunk)) return false;
    this._parents.delete(chunk);
    chunk.removeChunk(this);
    return true;
  }
  \<close>
  The two call each other; each call deletes one direction of the edge first, so the
  recursion ends after at most three calls.
\<close>

definition edge_count :: "heap \<Rightarrow> chunk_ref \<Rightarrow> chunk_ref \<Rightarrow> nat" where
  "edge_count h p c =
     (if c \<in> set (items (c_chunks (chunk_at h p))) then 1 else 0)
     + (if p \<in> set (items (c_parents (chunk_at h c))) then 1 else 0)"

function removeChunk :: "chunk_ref \<Rightarrow> chunk_ref \<Rightarrow> heap \<Rightarrow> bool \<times> heap"
  and removeParent :: "chunk_ref \<Rightarrow> chunk_ref \<Rightarrow> heap \<Rightarrow> bool \<times> heap" where
  "removeChunk this chunk h =
     (if \<not> SortableSet_has (c_chunks (chunk_at h this)) chunk then (False, h)
      else (True, snd (removeParent chunk this
              (upd_chunk this (\<lambda>c. c\<lparr>c_chunks := SortableSet_delete chunk (c_chunks c)\<rparr>) h))))"
| "removeParent this chunk h =
     (if \<not> SortableSet_has (c_parents (chunk_at h this)) chunk then (False, h)
      else (True, snd (removeChunk chunk this
              (upd_chunk this (\<lambda>c. c\<lparr>c_parents := SortableSet_delete chunk (c_parents c)\<rparr>) h))))"
  by pat_completeness auto
termination
  by (relation "measure (\<lambda>x. case x of
          Inl (this, chunk, h) \<Rightarrow> edge_count h this chunk
        | Inr (this, chunk, h) \<Rightarrow> edge_count h chunk this)")
     (auto simp: edge_count_def upd_chunk_def SortableSet_has_def SortableSet_delete_def
        Set_delete_def)

declare removeChunk.simps [simp del] removeParent.simps [simp del]

section \<open>Chunk: remove\<close>

text \<open>
  \<^verbatim>\<open>forEach\<close> over an array or a set becomes a \<open>fold\<close> over the members present when
  the loop starts.  For the arrays this is what \<^verbatim>\<open>Array.prototype.forEach\<close> does when the
  body only appends.  For the sets, no loop body below adds to or deletes from the set
  it iterates: each \<^verbatim>\<open>add\<close> on it is guarded by \<^verbatim>\<open>has\<close> and finds the member present.

  \<^verbatim>\<open>
  Array.from(this._modules).forEach(module => { module.removeChunk(this); });
  \<close>
\<close>

definition remove_modules :: "chunk_ref \<Rightarrow> heap \<Rightarrow> heap" where
  "remove_modules this h =
     fold (\<lambda>module h'. snd (Module_removeChunk module this h'))
       (items (c_modules (chunk_at h this))) h"

text \<open>
  \<^verbatim>\<open>
  this._parents.forEach(parentChunk => {
    parentChunk._chunks.delete(this);
    this._chunks.forEach(chunk => {
      chunk.addParent(parentChunk);
      parentChunk.addChunk(chunk);
    });
  });
  \<close>
  The inner loop reads \<^verbatim>\<open>this._chunks\<close> anew for each parent.
\<close>

definition remove_connect :: "chunk_ref \<Rightarrow> chunk_ref \<Rightarrow> chunk_ref \<Rightarrow> heap \<Rightarrow> heap" where
  "remove_connect this parentChunk chunk h =
     snd (addChunk parentChunk chunk (snd (addParent chunk parentChunk h)))"

definition remove_parent :: "chunk_ref \<Rightarrow> chunk_ref \<Rightarrow> heap \<Rightarrow> heap" where
  "remove_parent this parentChunk h =
     (let h1 = upd_chunk parentChunk
                 (\<lambda>c. c\<lparr>c_chunks := SortableSet_delete this (c_chunks c)\<rparr>) h
      in fold (remove_connect this parentChunk) (items (c_chunks (chunk_at h1 this))) h1)"

definition remove_parents :: "chunk_ref \<Rightarrow> heap \<Rightarrow> heap" where
  "remove_parents this h = fold (remove_parent this) (items (c_parents (chunk_at h this))) h"

text \<open>
  \<^verbatim>\<open>
  this._chunks.forEach(chunk => { chunk._parents.delete(this); });
  \<close>
\<close>

definition remove_children :: "chunk_ref \<Rightarrow> heap \<Rightarrow> heap" where
  "remove_children this h =
     fold (\<lambda>chunk. upd_chunk chunk (\<lambda>c. c\<lparr>c_parents := SortableSet_delete this (c_parents c)\<rparr>))
       (items (c_chunks (chunk_at h this))) h"

text \<open>
  \<^verbatim>\<open>
  this.blocks.forEach(block => {
    const idx = block.chunks.indexOf(this);
    if(idx >= 0) {
      block.chunks.splice(idx, 1);
      if(block.chunks.length === 0) {
        block.chunks = null;
        block.chunkReason = reason;
      }
    }
  });
  \<close>
  \<^verbatim>\<open>block.chunks.indexOf\<close> throws a \<^verbatim>\<open>TypeError\<close> when \<^verbatim>\<open>block.chunks\<close> is \<^verbatim>\<open>null\<close>.
\<close>

definition remove_block :: "reason \<Rightarrow> chunk_ref \<Rightarrow> block_ref \<Rightarrow> heap \<Rightarrow> (error \<times> heap) + heap" where
  "remove_block reason this blk h =
     (case b_chunks (block_at h blk) of
        None \<Rightarrow> Inl (TypeError, h)
      | Some cs \<Rightarrow>
          (if indexOf cs this \<ge> 0
           then (if length (remove1 this cs) = 0
                 then Inr (upd_block blk (\<lambda>b. b\<lparr>b_chunks := None, b_chunkReason := Some reason\<rparr>) h)
                 else Inr (upd_block blk (\<lambda>b. b\<lparr>b_chunks := Some (remove1 this cs)\<rparr>) h))
           else Inr h))"

fun remove_blocks ::
  "reason \<Rightarrow> chunk_ref \<Rightarrow> block_ref list \<Rightarrow> heap \<Rightarrow> (error \<times> heap) + heap" where
  "remove_blocks reason this [] h = Inr h"
| "remove_blocks reason this (blk # bs) h =
     (case remove_block reason this blk h of
        Inl e \<Rightarrow> Inl e
      | Inr h' \<Rightarrow> remove_blocks reason this bs h')"

text \<open>\<^verbatim>\<open>remove(reason)\<close>: the four loops in order.\<close>

definition Chunk_remove :: "chunk_ref \<Rightarrow> reason \<Rightarrow> heap \<Rightarrow> (error \<times> heap) + heap" where
  "Chunk_remove this reason h =
     (let h1 = remove_modules this h;
          h2 = remove_parents this h1;
          h3 = remove_children this h2
      in remove_blocks reason this (c_blocks (chunk_at h3 this)) h3)"

section \<open>Chunk: integrate\<close>

text \<open>
  \<^verbatim>\<open>
  canBeIntegrated(otherChunk) {
    if(otherChunk.isInitial()) return false;
    if(this.isInitial()) {
      if(otherChunk._parents.size !== 1 || !otherChunk._parents.has(this)) return false;
    }
    return true;
  }
  \<close>
\<close>

definition canBeIntegrated :: "chunk_ref \<Rightarrow> chunk_ref \<Rightarrow> heap \<Rightarrow> bool" where
  "canBeIntegrated this otherChunk h =
     (if isInitial otherChunk h then False
      else if isInitial this h
              \<and> (SortableSet_size (c_parents (chunk_at h otherChunk)) \<noteq> 1
                 \<or> \<not> SortableSet_has (c_parents (chunk_at h otherChunk)) this)
           then False
      else True)"

text \<open>
  \<^verbatim>\<open>
  moveModule(module, otherChunk) {
    module.removeChunk(this);
    module.addChunk(otherChunk);
    otherChunk.addModule(module);
    module.rewriteChunkInReasons(this, [otherChunk]);
  }
  \<close>
\<close>

definition moveModule :: "chunk_ref \<Rightarrow> module_ref \<Rightarrow> chunk_ref \<Rightarrow> heap \<Rightarrow> heap" where
  "moveModule this module otherChunk h =
     (let h1 = snd (Module_removeChunk module this h);
          h2 = Module_addChunk module otherChunk h1;
          h3 = snd (addModule otherChunk module h2)
      in Module_rewriteChunkInReasons module this [otherChunk] h3)"

text \<open>
  \<^verbatim>\<open>
  replaceChunk(oldChunk, newChunk) {
    this._chunks.delete(oldChunk);
    if(this !== newChunk && newChunk.addParent(this)) this.addChunk(newChunk);
  }
  replaceParentChunk(oldParentChunk, newParentChunk) {
    this._parents.delete(oldParentChunk);
    if(this !== newParentChunk && newParentChunk.addChunk(this)) this.addParent(newParentChunk);
  }
  \<close>
\<close>

definition replaceChunk :: "chunk_ref \<Rightarrow> chunk_ref \<Rightarrow> chunk_ref \<Rightarrow> heap \<Rightarrow> heap" where
  "replaceChunk this oldChunk newChunk h =
     (let h1 = upd_chunk this (\<lambda>c. c\<lparr>c_chunks := SortableSet_delete oldChunk (c_chunks c)\<rparr>) h
      in if this \<noteq> newChunk
         then (case addParent newChunk this h1 of
                 (added, h2) \<Rightarrow> if added then snd (addChunk this newChunk h2) else h2)
         else h1)"

definition replaceParentChunk :: "chunk_ref \<Rightarrow> chunk_ref \<Rightarrow> chunk_ref \<Rightarrow> heap \<Rightarrow> heap" where
  "replaceParentChunk this oldParentChunk newParentChunk h =
     (let h1 = upd_chunk this
                 (\<lambda>c. c\<lparr>c_parents := SortableSet_delete oldParentChunk (c_parents c)\<rparr>) h
      in if this \<noteq> newParentChunk
         then (case addChunk newParentChunk this h1 of
                 (added, h2) \<Rightarrow> if added then snd (addParent this newParentChunk h2) else h2)
         else h1)"

text \<open>
  \<^verbatim>\<open>
  otherChunk.blocks.forEach(b => {
    b.chunks = b.chunks ? b.chunks.map(c => { return c === otherChunk ? this : c; }) : [this];
    b.chunkReason = reason;
    this.addBlock(b);
  });
  \<close>
  An array is truthy also when it is empty.
\<close>

definition integrate_block :: "chunk_ref \<Rightarrow> chunk_ref \<Rightarrow> reason \<Rightarrow> block_ref \<Rightarrow> heap \<Rightarrow> heap" where
  "integrate_block this otherChunk reason b h =
     snd (addBlock this b
       (upd_block b
          (\<lambda>blk. blk\<lparr>b_chunks :=
                       (case b_chunks blk of
                          Some cs \<Rightarrow> Some (map (\<lambda>c. if c = otherChunk then this else c) cs)
                        | None \<Rightarrow> Some [this]),
                     b_chunkReason := Some reason\<rparr>) h))"

text \<open>
  \<^verbatim>\<open>
  this.origins.forEach(origin => {
    if(!origin.reasons) origin.reasons = [reason];
    else if(origin.reasons[0] !== reason) origin.reasons.unshift(reason);
  });
  \<close>
  \<^verbatim>\<open>origin.reasons[0]\<close> of an empty array is \<^verbatim>\<open>undefined\<close>, which differs from every reason.
\<close>

definition add_reason :: "reason \<Rightarrow> reason list option \<Rightarrow> reason list option" where
  "add_reason reason rs =
     (case rs of
        None \<Rightarrow> Some [reason]
      | Some [] \<Rightarrow> Some [reason]
      | Some (r # rest) \<Rightarrow> if r \<noteq> reason then Some (reason # r # rest) else Some (r # rest))"

definition integrate_origin :: "reason \<Rightarrow> origin_ref \<Rightarrow> heap \<Rightarrow> heap" where
  "integrate_origin reason r h =
     upd_origin r (\<lambda>orig. orig\<lparr>o_reasons := add_reason reason (o_reasons orig)\<rparr>) h"

text \<open>
  \<^verbatim>\<open>integrate(otherChunk, reason)\<close>, one definition for each group of statements; every
  loop reads the collection it iterates from the heap as it is when the loop starts.
  \<^verbatim>\<open>
  const otherChunkModules = Array.from(otherChunk._modules);
  otherChunkModules.forEach(module => otherChunk.moveModule(module, this));
  otherChunk._modules.clear();
  \<close>
\<close>

definition integrate_modules :: "chunk_ref \<Rightarrow> chunk_ref \<Rightarrow> heap \<Rightarrow> heap" where
  "integrate_modules this otherChunk h =
     upd_chunk otherChunk (\<lambda>c. c\<lparr>c_modules := SortableSet_clear (c_modules c)\<rparr>)
       (fold (\<lambda>module. moveModule otherChunk module this)
          (items (c_modules (chunk_at h otherChunk))) h)"

text \<open>
  \<^verbatim>\<open>
  otherChunk._parents.forEach(parentChunk => parentChunk.replaceChunk(otherChunk, this));
  otherChunk._parents.clear();
  \<close>
\<close>

definition integrate_parents :: "chunk_ref \<Rightarrow> chunk_ref \<Rightarrow> heap \<Rightarrow> heap" where
  "integrate_parents this otherChunk h =
     upd_chunk otherChunk (\<lambda>c. c\<lparr>c_parents := SortableSet_clear (c_parents c)\<rparr>)
       (fold (\<lambda>parentChunk. replaceChunk parentChunk otherChunk this)
          (items (c_parents (chunk_at h otherChunk))) h)"

text \<open>
  \<^verbatim>\<open>
  otherChunk._chunks.forEach(chunk => chunk.replaceParentChunk(otherChunk, this));
  otherChunk._chunks.clear();
  \<close>
\<close>

definition integrate_children :: "chunk_ref \<Rightarrow> chunk_ref \<Rightarrow> heap \<Rightarrow> heap" where
  "integrate_children this otherChunk h =
     upd_chunk otherChunk (\<lambda>c. c\<lparr>c_chunks := SortableSet_clear (c_chunks c)\<rparr>)
       (fold (\<lambda>chunk. replaceParentChunk chunk otherChunk this)
          (items (c_chunks (chunk_at h otherChunk))) h)"

text \<open>
  \<^verbatim>\<open>
  otherChunk.blocks.forEach(b => { ... });
  otherChunk.blocks.length = 0;
  \<close>
\<close>

definition integrate_blocks :: "chunk_ref \<Rightarrow> chunk_ref \<Rightarrow> reason \<Rightarrow> heap \<Rightarrow> heap" where
  "integrate_blocks this otherChunk reason h =
     upd_chunk otherChunk (\<lambda>c. c\<lparr>c_blocks := []\<rparr>)
       (fold (integrate_block this otherChunk reason) (c_blocks (chunk_at h otherChunk)) h)"

text \<open>
  \<^verbatim>\<open>
  otherChunk.origins.forEach(origin => { this.origins.push(origin); });
  this.origins.forEach(origin => { ... });
  \<close>
  The second loop runs over \<^verbatim>\<open>this.origins\<close> as the first loop has left it.
\<close>

definition integrate_origins :: "chunk_ref \<Rightarrow> chunk_ref \<Rightarrow> reason \<Rightarrow> heap \<Rightarrow> heap" where
  "integrate_origins this otherChunk reason h =
     (let h1 = fold (\<lambda>orig. upd_chunk this (\<lambda>c. c\<lparr>c_origins := c_origins c @ [orig]\<rparr>))
                 (c_origins (chunk_at h otherChunk)) h
      in fold (integrate_origin reason) (c_origins (chunk_at h1 this)) h1)"

text \<open>
  \<^verbatim>\<open>
  this._chunks.delete(otherChunk);
  this._chunks.delete(this);
  this._parents.delete(otherChunk);
  this._parents.delete(this);
  \<close>
\<close>

definition integrate_cleanup :: "chunk_ref \<Rightarrow> chunk_ref \<Rightarrow> heap \<Rightarrow> heap" where
  "integrate_cleanup this otherChunk h =
     upd_chunk this
       (\<lambda>c. c\<lparr>c_parents := SortableSet_delete this (SortableSet_delete otherChunk (c_parents c))\<rparr>)
       (upd_chunk this
          (\<lambda>c. c\<lparr>c_chunks := SortableSet_delete this (SortableSet_delete otherChunk (c_chunks c))\<rparr>)
          h)"

definition integrate :: "chunk_ref \<Rightarrow> chunk_ref \<Rightarrow> reason \<Rightarrow> heap \<Rightarrow> bool \<times> heap" where
  "integrate this otherChunk reason h =
     (if \<not> canBeIntegrated this otherChunk h then (False, h)
      else
        (let h1 = integrate_modules this otherChunk h;
             h2 = integrate_parents this otherChunk h1;
             h3 = integrate_children this otherChunk h2;
             h4 = integrate_blocks this otherChunk reason h3;
             h5 = integrate_origins this otherChunk reason h4;
             h6 = integrate_cleanup this otherChunk h5
         in (True, h6)))"

section \<open>Chunk: split\<close>

text \<open>
  Modelled from the spec: \<^verbatim>\<open>Entrypoint.insertChunk(newChunk, afterChunk)\<close> is not among the
  sources; it inserts the new chunk immediately after the given one in the entrypoint's
  ordered chunk list.
\<close>

fun insert_after :: "'a \<Rightarrow> 'a \<Rightarrow> 'a list \<Rightarrow> 'a list" where
  "insert_after a n [] = []"
| "insert_after a n (x # xs) = (if x = a then x # n # xs else x # insert_after a n xs)"

definition Entrypoint_insertChunk ::
  "entrypoint_ref \<Rightarrow> chunk_ref \<Rightarrow> chunk_ref \<Rightarrow> heap \<Rightarrow> heap" where
  "Entrypoint_insertChunk e newChunk afterChunk h =
     h\<lparr>entrypoint_at := (entrypoint_at h)(e := insert_after afterChunk newChunk (entrypoint_at h e))\<rparr>"

text \<open>
  \<^verbatim>\<open>
  this.blocks.forEach(block => {
    newChunk.blocks.push(block);
    block.chunks.push(newChunk);
  });
  \<close>
  \<^verbatim>\<open>block.chunks.push\<close> throws a \<^verbatim>\<open>TypeError\<close> when \<^verbatim>\<open>block.chunks\<close> is \<^verbatim>\<open>null\<close>, after the
  block has been pushed onto \<^verbatim>\<open>newChunk.blocks\<close>.
\<close>

fun split_blocks :: "chunk_ref \<Rightarrow> block_ref list \<Rightarrow> heap \<Rightarrow> (error \<times> heap) + heap" where
  "split_blocks newChunk [] h = Inr h"
| "split_blocks newChunk (blk # bs) h =
     (let h1 = upd_chunk newChunk (\<lambda>c. c\<lparr>c_blocks := c_blocks c @ [blk]\<rparr>) h
      in case b_chunks (block_at h1 blk) of
           None \<Rightarrow> Inl (TypeError, h1)
         | Some cs \<Rightarrow>
             split_blocks newChunk bs
               (upd_block blk (\<lambda>b. b\<lparr>b_chunks := Some (cs @ [newChunk])\<rparr>) h1))"

text \<open>
  \<^verbatim>\<open>
  this._chunks.forEach(chunk => { newChunk.addChunk(chunk); chunk.addParent(newChunk); });
  this._parents.forEach(parentChunk => {
    parentChunk.addChunk(newChunk);
    newChunk.addParent(parentChunk);
  });
  this.entrypoints.forEach(entrypoint => { entrypoint.insertChunk(newChunk, this); });
  \<close>
\<close>

definition split_child :: "chunk_ref \<Rightarrow> chunk_ref \<Rightarrow> heap \<Rightarrow> heap" where
  "split_child newChunk chunk h = snd (addParent chunk newChunk (snd (addChunk newChunk chunk h)))"

definition split_parent :: "chunk_ref \<Rightarrow> chunk_ref \<Rightarrow> heap \<Rightarrow> heap" where
  "split_parent newChunk parentChunk h =
     snd (addParent newChunk parentChunk (snd (addChunk parentChunk newChunk h)))"

definition split_edges :: "chunk_ref \<Rightarrow> chunk_ref \<Rightarrow> heap \<Rightarrow> heap" where
  "split_edges this newChunk h =
     (let h1 = fold (split_child newChunk) (items (c_chunks (chunk_at h this))) h;
          h2 = fold (split_parent newChunk) (items (c_parents (chunk_at h1 this))) h1
      in fold (\<lambda>e. Entrypoint_insertChunk e newChunk this) (c_entrypoints (chunk_at h2 this)) h2)"

definition Chunk_split :: "chunk_ref \<Rightarrow> chunk_ref \<Rightarrow> heap \<Rightarrow> (error \<times> heap) + heap" where
  "Chunk_split this newChunk h =
     (case split_blocks newChunk (c_blocks (chunk_at h this)) h of
        Inl e \<Rightarrow> Inl e
      | Inr h1 \<Rightarrow> Inr (split_edges this newChunk h1))"

section \<open>Chunk: cost model\<close>

text \<open>
  Sizes are JavaScript numbers; the model covers the integers.  An option of the
  optimizer is absent (\<open>None\<close>) or a number.
  \<^verbatim>\<open>
  addMultiplierAndOverhead(size, options) {
    const overhead = typeof options.chunkOverhead === "number" ? options.chunkOverhead : 10000;
    const multiplicator = this.isInitial() ? (options.entryChunkMultiplicator || 10) : 1;
    return size * multiplicator + overhead;
  }
  \<close>
  Of the numbers, \<^verbatim>\<open>||\<close> replaces 0.
\<close>

record options =
  chunkOverhead :: "int option"
  entryChunkMultiplicator :: "int option"

definition addMultiplierAndOverhead :: "chunk_ref \<Rightarrow> int \<Rightarrow> options \<Rightarrow> heap \<Rightarrow> int" where
  "addMultiplierAndOverhead this sz opts h =
     (let overhead = (case chunkOverhead opts of Some n \<Rightarrow> n | None \<Rightarrow> 10000);
          multiplicator =
            (if isInitial this h
             then (case entryChunkMultiplicator opts of
                     Some n \<Rightarrow> if n = 0 then 10 else n
                   | None \<Rightarrow> 10)
             else 1)
      in sz * multiplicator + overhead)"

text \<open>
  \<^verbatim>\<open>
  modulesSize() {
    let count = 0;
    for(const module of this._modules) count += module.size();
    return count;
  }
  \<close>
\<close>

definition modulesSize :: "chunk_ref \<Rightarrow> heap \<Rightarrow> int" where
  "modulesSize this h =
     fold (\<lambda>module count. count + m_size (module_at h module))
       (items (c_modules (chunk_at h this))) 0"

definition Chunk_size :: "chunk_ref \<Rightarrow> options \<Rightarrow> heap \<Rightarrow> int" where
  "Chunk_size this opts h = addMultiplierAndOverhead this (modulesSize this h) opts h"

text \<open>
  \<^verbatim>\<open>
  integratedSize(otherChunk, options) {
    if(!this.canBeIntegrated(otherChunk)) return false;
    let integratedModulesSize = this.modulesSize();
    for(const otherModule of otherChunk._modules) {
      if(!this._modules.has(otherModule)) integratedModulesSize += otherModule.size();
    }
    return this.addMultiplierAndOverhead(integratedModulesSize, options);
  }
  \<close>
  The result \<^verbatim>\<open>false\<close> is \<open>None\<close>.
\<close>

definition integratedSize :: "chunk_ref \<Rightarrow> chunk_ref \<Rightarrow> options \<Rightarrow> heap \<Rightarrow> int option" where
  "integratedSize this otherChunk opts h =
     (if \<not> canBeIntegrated this otherChunk h then None
      else
        (let integratedModulesSize =
               fold (\<lambda>otherModule sz.
                       if \<not> SortableSet_has (c_modules (chunk_at h this)) otherModule
                       then sz + m_size (module_at h otherModule) else sz)
                 (items (c_modules (chunk_at h otherChunk))) (modulesSize this h)
         in Some (addMultiplierAndOverhead this integratedModulesSize opts h)))"

section \<open>Chunk: checkConstraints\<close>

text \<open>
  \<^verbatim>\<open>
  const chunks = Array.from(chunk._chunks);
  chunks.forEach((child, idx) => {
    if(chunks.indexOf(child) !== idx) throw new Error("... duplicate child ...");
    if(!child._parents.has(chunk)) throw new Error("... child missing parent ...");
  });
  const parents = Array.from(chunk._parents);
  parents.forEach((parentChunk, idx) => {
    if(parents.indexOf(parentChunk) !== idx) throw new Error("... duplicate parent ...");
    const chunks = Array.from(parentChunk._chunks);
    if(chunks.indexOf(chunk) < 0) throw new Error("... parent missing child ...");
  });
  \<close>
  Nothing is mutated, so the result is the fault thrown, or \<open>None\<close>.  The loops
  walk the array with the index of the member at hand.
\<close>

fun check_children ::
  "chunk_ref \<Rightarrow> chunk_ref list \<Rightarrow> chunk_ref list \<Rightarrow> nat \<Rightarrow> heap \<Rightarrow> error option" where
  "check_children chunk chunks [] idx h = None"
| "check_children chunk chunks (child # rest) idx h =
     (if indexOf chunks child \<noteq> int idx then Some (DuplicateChild chunk child)
      else if \<not> SortableSet_has (c_parents (chunk_at h child)) chunk
           then Some (ChildMissingParent chunk child)
      else check_children chunk chunks rest (Suc idx) h)"

fun check_parents ::
  "chunk_ref \<Rightarrow> chunk_ref list \<Rightarrow> chunk_ref list \<Rightarrow> nat \<Rightarrow> heap \<Rightarrow> error option" where
  "check_parents chunk parents [] idx h = None"
| "check_parents chunk parents (parentChunk # rest) idx h =
     (if indexOf parents parentChunk \<noteq> int idx then Some (DuplicateParent chunk parentChunk)
      else if indexOf (items (c_chunks (chunk_at h parentChunk))) chunk < 0
           then Some (ParentMissingChild parentChunk chunk)
      else check_parents chunk parents rest (Suc idx) h)"

definition checkConstraints :: "chunk_ref \<Rightarrow> heap \<Rightarrow> error option" where
  "checkConstraints chunk h =
     (let chunks = items (c_chunks (chunk_at h chunk));
          parents = items (c_parents (chunk_at h chunk))
      in case check_children chunk chunks chunks 0 h of
           Some e \<Rightarrow> Some e
         | None \<Rightarrow> check_parents chunk parents parents 0 h)"

section \<open>DependenciesBlock: getIdentForChunk\<close>

text \<open>
  A template literal renders an integer in decimal; \<^verbatim>\<open>join(":")\<close> puts the separator
  between the members of the array.
\<close>

definition digit :: "nat \<Rightarrow> char" where
  "digit n = ''0123456789'' ! n"

fun show_nat :: "nat \<Rightarrow> string" where
  "show_nat n = (if n < 10 then [digit n] else show_nat (n div 10) @ [digit (n mod 10)])"

definition show_int :: "int \<Rightarrow> string" where
  "show_int i = (if i < 0 then CHR ''-'' # show_nat (nat (- i)) else show_nat (nat i))"

fun join :: "string \<Rightarrow> string list \<Rightarrow> string" where
  "join sep [] = []"
| "join sep [x] = x"
| "join sep (x # y # ys) = x @ sep @ join sep (y # ys)"

text \<open>
  \<^verbatim>\<open>
  let parent = this.parent;
  while(parent) {
    const p = this.parent;
    const idx = p.blocks.indexOf(this);
    const l = p.blocks.length - 1;
    ident.unshift(`${idx}/${l}`);
    parent = parent.parent;
  }
  \<close>
  The loop walks \<^verbatim>\<open>parent\<close> up the chain and does not return when the chain is cyclic:
  the result \<open>None\<close> is no result.  In the body \<^verbatim>\<open>p\<close> is the parent of \<^verbatim>\<open>this\<close> each time.
\<close>

partial_function (option) ident_loop ::
  "heap \<Rightarrow> block_ref \<Rightarrow> block_ref option \<Rightarrow> string list \<Rightarrow> (error + string list) option" where
  "ident_loop h this parent ident =
     (case parent of
        None \<Rightarrow> Some (Inr ident)
      | Some par \<Rightarrow>
          (case b_parent (block_at h this) of
             None \<Rightarrow> Some (Inl TypeError)
           | Some p \<Rightarrow>
               (let idx = indexOf (b_blocks (block_at h p)) this;
                    l = int (length (b_blocks (block_at h p))) - 1
                in ident_loop h this (b_parent (block_at h par))
                     ((show_int idx @ ''/'' @ show_int l) # ident))))"

text \<open>
  \<^verbatim>\<open>
  getIdentForChunk(chunk, context) {
    if(!this.identifier) return null;
    const ident = [];
    if(this.chunks.length > 1) ident.push(this.chunks.indexOf(chunk));
    ... the loop ...
    ident.unshift(identifierUtils.makePathsRelative(context, this.identifier()));
    return ident.join(":");
  }
  \<close>
  \<^verbatim>\<open>makePathsRelative\<close> belongs to \<^verbatim>\<open>util/identifier\<close>, which is not among the sources,
  and is a parameter.  The result is \<open>Inl\<close> of the exception thrown, or \<open>Inr\<close> of \<^verbatim>\<open>null\<close>
  (\<open>None\<close>) or the string.
\<close>

definition getIdentForChunk ::
  "(string \<Rightarrow> string \<Rightarrow> string) \<Rightarrow> block_ref \<Rightarrow> chunk_ref \<Rightarrow> string \<Rightarrow> heap
     \<Rightarrow> (error + string option) option" where
  "getIdentForChunk makePathsRelative this chunk context' h =
     (case b_identifier (block_at h this) of
        None \<Rightarrow> Some (Inr None)
      | Some identifier \<Rightarrow>
          (case b_chunks (block_at h this) of
             None \<Rightarrow> Some (Inl TypeError)
           | Some chunks \<Rightarrow>
               (case ident_loop h this (b_parent (block_at h this))
                       (if length chunks > 1 then [show_int (indexOf chunks chunk)] else []) of
                  None \<Rightarrow> None
                | Some (Inl e) \<Rightarrow> Some (Inl e)
                | Some (Inr ident) \<Rightarrow>
                    Some (Inr (Some (join '':'' (makePathsRelative context' identifier # ident)))))))"

text \<open>
  The identifier as the specification words it: after the identifier comes, for each
  ancestor of the block walking up the parent chain, a segment with that ancestor's
  index among its own parent's children over the number of its siblings; the index of
  the chunk comes last.  \<open>ancestor_segments\<close> walks up from a block and makes the segment
  of each block on the way that has a parent.
\<close>

partial_function (option) ancestor_segments ::
  "heap \<Rightarrow> block_ref \<Rightarrow> string list \<Rightarrow> string list option" where
  "ancestor_segments h blk ident =
     (case b_parent (block_at h blk) of
        None \<Rightarrow> Some ident
      | Some p \<Rightarrow>
          ancestor_segments h p
            ((show_int (indexOf (b_blocks (block_at h p)) blk) @ ''/''
               @ show_int (int (length (b_blocks (block_at h p))) - 1)) # ident))"

definition getIdentForChunk_spec ::
  "(string \<Rightarrow> string \<Rightarrow> string) \<Rightarrow> block_ref \<Rightarrow> chunk_ref \<Rightarrow> string \<Rightarrow> heap
     \<Rightarrow> string option option" where
  "getIdentForChunk_spec makePathsRelative this chunk context' h =
     (case b_identifier (block_at h this) of
        None \<Rightarrow> Some None
      | Some identifier \<Rightarrow>
          (case b_parent (block_at h this) of
             None \<Rightarrow> Some (Some (join '':'' (makePathsRelative context' identifier
                        # (case b_chunks (block_at h this) of
                             Some chunks \<Rightarrow>
                               if length chunks > 1 then [show_int (indexOf chunks chunk)] else []
                           | None \<Rightarrow> []))))
           | Some p \<Rightarrow>
               (case ancestor_segments h p
                       (case b_chunks (block_at h this) of
                          Some chunks \<Rightarrow>
                            if length chunks > 1 then [show_int (indexOf chunks chunk)] else []
                        | None \<Rightarrow> []) of
                  None \<Rightarrow> None
                | Some ident \<Rightarrow>
                    Some (Some (join '':'' (makePathsRelative context' identifier # ident))))))"

section \<open>The edge relation\<close>

text \<open>The members of a chunk's \<^verbatim>\<open>_chunks\<close> and \<^verbatim>\<open>_parents\<close>, as sets.\<close>

definition children :: "heap \<Rightarrow> chunk_ref \<Rightarrow> chunk_ref set" where
  "children h a = set (items (c_chunks (chunk_at h a)))"

definition parents :: "heap \<Rightarrow> chunk_ref \<Rightarrow> chunk_ref set" where
  "parents h a = set (items (c_parents (chunk_at h a)))"

text \<open>Edge symmetry: \<open>b\<close> is a child of \<open>a\<close> iff \<open>a\<close> is a parent of \<open>b\<close>.\<close>

definition symmetric :: "heap \<Rightarrow> bool" where
  "symmetric h \<longleftrightarrow> (\<forall>a b. b \<in> children h a \<longleftrightarrow> a \<in> parents h b)"

text \<open>
  The lists that stand for the edge sets hold no member twice, as a \<^verbatim>\<open>Set\<close> cannot.
\<close>

definition duplicate_free :: "heap \<Rightarrow> bool" where
  "duplicate_free h \<longleftrightarrow>
     (\<forall>a. distinct (items (c_chunks (chunk_at h a))) \<and> distinct (items (c_parents (chunk_at h a))))"

text \<open>
  The invariant of a block's chunk list: a non-empty list, or \<^verbatim>\<open>null\<close> with a reason
  recorded.
\<close>

definition block_ok :: "block \<Rightarrow> bool" where
  "block_ok b = (case b_chunks b of Some cs \<Rightarrow> cs \<noteq> [] | None \<Rightarrow> b_chunkReason b \<noteq> None)"

text \<open>What the origin handling reads: the origin store and each chunk's \<^verbatim>\<open>origins\<close>.\<close>

definition origins_view :: "heap \<Rightarrow> (origin_ref \<Rightarrow> origin) \<times> (chunk_ref \<Rightarrow> origin_ref list)" where
  "origins_view h = (origin_at h, \<lambda>a. c_origins (chunk_at h a))"

text \<open>What the edge relation reads of a heap: the members of every edge set, in order.\<close>

definition edges_view :: "heap \<Rightarrow> chunk_ref \<Rightarrow> chunk_ref list \<times> chunk_ref list" where
  "edges_view h = (\<lambda>a. (items (c_chunks (chunk_at h a)), items (c_parents (chunk_at h a))))"

text \<open>
  A chunk that has been removed is discarded, and \<^verbatim>\<open>remove\<close> leaves its own edge sets as
  they were.  Symmetry is therefore stated for the chunks outside a set \<open>D\<close> of removed
  chunks: a chunk outside \<open>D\<close> has the child \<open>b\<close> iff \<open>b\<close> is outside \<open>D\<close> and has it as a
  parent.  For empty \<open>D\<close> this is \<open>symmetric\<close>.
\<close>

definition live_symmetric :: "chunk_ref set \<Rightarrow> heap \<Rightarrow> bool" where
  "live_symmetric D h \<longleftrightarrow>
     (\<forall>a b. (a \<notin> D \<and> b \<in> children h a) \<longleftrightarrow> (b \<notin> D \<and> a \<in> parents h b))"

text \<open>No chunk outside \<open>D\<close> is its own child.\<close>

definition self_free :: "chunk_ref set \<Rightarrow> heap \<Rightarrow> bool" where
  "self_free D h \<longleftrightarrow> (\<forall>a. a \<notin> D \<longrightarrow> a \<notin> children h a)"

definition graph_ok :: "chunk_ref set \<Rightarrow> heap \<Rightarrow> bool" where
  "graph_ok D h \<longleftrightarrow> duplicate_free h \<and> live_symmetric D h \<and> self_free D h"

section \<open>Sequences of calls\<close>

text \<open>
  The calls of the graph interface.  \<open>Connect\<close> is the matching pair
  \<^verbatim>\<open>parentChunk.addChunk(chunk); chunk.addParent(parentChunk)\<close>, the way \<^verbatim>\<open>split\<close> and
  \<^verbatim>\<open>remove\<close> themselves use the two methods.  A call that throws leaves the heap of the
  throw behind for the next call.
\<close>

datatype call =
  Connect chunk_ref chunk_ref
  | RemoveChunk chunk_ref chunk_ref
  | RemoveParent chunk_ref chunk_ref
  | Integrate chunk_ref chunk_ref reason
  | Split chunk_ref chunk_ref
  | Remove chunk_ref reason

fun run_call :: "call \<Rightarrow> heap \<Rightarrow> heap" where
  "run_call (Connect parentChunk chunk) h =
     snd (addParent chunk parentChunk (snd (addChunk parentChunk chunk h)))"
| "run_call (RemoveChunk this chunk) h = snd (removeChunk this chunk h)"
| "run_call (RemoveParent this chunk) h = snd (removeParent this chunk h)"
| "run_call (Integrate this otherChunk reason) h = snd (integrate this otherChunk reason h)"
| "run_call (Split this newChunk) h = heap_of (Chunk_split this newChunk h)"
| "run_call (Remove this reason) h = heap_of (Chunk_remove this reason h)"

text \<open>The chunks removed so far.\<close>

fun removed_by :: "call \<Rightarrow> chunk_ref set \<Rightarrow> chunk_ref set" where
  "removed_by (Remove this reason) D = insert this D"
| "removed_by c D = D"

text \<open>
  The calls covered: no call uses a removed chunk again; \<open>Connect\<close> joins two different
  chunks; \<^verbatim>\<open>split\<close> is given a chunk that is neither a child nor a parent of the chunk
  it splits (a freshly constructed chunk is such a chunk); \<^verbatim>\<open>remove\<close> is called on a
  chunk none of whose children is also its parent.
\<close>

fun admissible :: "call \<Rightarrow> chunk_ref set \<Rightarrow> heap \<Rightarrow> bool" where
  "admissible (Connect parentChunk chunk) D h =
     (parentChunk \<notin> D \<and> chunk \<notin> D \<and> parentChunk \<noteq> chunk)"
| "admissible (RemoveChunk this chunk) D h = (this \<notin> D \<and> chunk \<notin> D)"
| "admissible (RemoveParent this chunk) D h = (this \<notin> D \<and> chunk \<notin> D)"
| "admissible (Integrate this otherChunk reason) D h = (this \<notin> D \<and> otherChunk \<notin> D)"
| "admissible (Split this newChunk) D h =
     (this \<notin> D \<and> newChunk \<notin> D
      \<and> newChunk \<notin> children h this \<and> newChunk \<notin> parents h this)"
| "admissible (Remove this reason) D h =
     (this \<notin> D \<and> children h this \<inter> parents h this = {})"

fun admissible_run :: "call list \<Rightarrow> chunk_ref set \<Rightarrow> heap \<Rightarrow> bool" where
  "admissible_run [] D h = True"
| "admissible_run (c # cs) D h =
     (admissible c D h \<and> admissible_run cs (removed_by c D) (run_call c h))"

section \<open>Example heaps\<close>

text \<open>The heap in which every chunk is freshly constructed and nothing else is set.\<close>

definition empty_heap :: heap where
  "empty_heap =
     \<lparr>chunk_at = (\<lambda>_. new_Chunk),
      block_at = (\<lambda>_. \<lparr>b_identifier = None, b_parent = None, b_blocks = [],
                         b_chunks = None, b_chunkReason = None\<rparr>),
      origin_at = (\<lambda>_. \<lparr>o_module = 0, o_reasons = None\<rparr>),
      module_at = (\<lambda>_. \<lparr>m_size = 0, m_chunks = []\<rparr>),
      entrypoint_at = (\<lambda>_. [])\<rparr>"

text \<open>A chunk with the given modules, entrypoints, children and parents.\<close>

definition mk_chunk ::
  "module_ref list \<Rightarrow> entrypoint_ref list \<Rightarrow> chunk_ref list \<Rightarrow> chunk_ref list \<Rightarrow> chunk" where
  "mk_chunk ms es cs ps =
     new_Chunk\<lparr>c_modules := new_SortableSet ms sortByIdentifier False, c_entrypoints := es,
               c_chunks := new_SortableSet cs sortById False,
               c_parents := new_SortableSet ps sortById False\<rparr>"

text \<open>
  The scenario of the cost model: chunk 0 is initial (entrypoint 0) and holds modules
  0 and 1 of sizes 60 and 40; chunk 1 is not initial, has chunk 0 as its single parent
  and holds module 2 of size 50.
\<close>

definition cost_heap :: heap where
  "cost_heap =
     empty_heap\<lparr>chunk_at := (\<lambda>_. new_Chunk)(0 := mk_chunk [0, 1] [0] [1] [], 1 := mk_chunk [2] [] [] [0]),
                module_at := (\<lambda>_. \<lparr>m_size = 0, m_chunks = []\<rparr>)
                   (0 := \<lparr>m_size = 60, m_chunks = [0]\<rparr>, 1 := \<lparr>m_size = 40, m_chunks = [0]\<rparr>,
                    2 := \<lparr>m_size = 50, m_chunks = [1]\<rparr>),
                entrypoint_at := (\<lambda>_. [])(0 := [0])\<rparr>"

text \<open>
  A chain: chunk 3 is the parent of chunk 2, which is the parent of chunk 4.
\<close>

definition remove_heap :: heap where
  "remove_heap =
     empty_heap\<lparr>chunk_at := (\<lambda>_. new_Chunk)
        (3 := mk_chunk [] [] [2] [], 2 := mk_chunk [] [] [4] [3], 4 := mk_chunk [] [] [] [2])\<rparr>"

text \<open>
  The same chain with a self-edge on chunk 2, as \<^verbatim>\<open>addChunk\<close> and \<^verbatim>\<open>addParent\<close> of a chunk
  on itself leave it, and as \<^verbatim>\<open>remove\<close> of the other chunk of a two-chunk cycle leaves it.
\<close>

definition selfloop_heap :: heap where
  "selfloop_heap =
     empty_heap\<lparr>chunk_at := (\<lambda>_. new_Chunk)
        (3 := mk_chunk [] [] [2] [], 2 := mk_chunk [] [] [2, 4] [3, 2],
         4 := mk_chunk [] [] [] [2])\<rparr>"

text \<open>
  The chain again, with origins and blocks: chunk 3 has origin 10, chunk 2 has origin 11
  and is produced by block 7 (alone) and block 8 (together with chunk 4).
\<close>

definition integrate_heap :: heap where
  "integrate_heap =
     empty_heap\<lparr>chunk_at := (\<lambda>_. new_Chunk)
        (3 := (mk_chunk [] [] [2] [])\<lparr>c_origins := [10]\<rparr>,
         2 := (mk_chunk [] [] [4] [3])\<lparr>c_blocks := [7, 8], c_origins := [11]\<rparr>,
         4 := mk_chunk [] [] [] [2]),
       block_at := (block_at empty_heap)
        (7 := (block_at empty_heap 7)\<lparr>b_chunks := Some [2]\<rparr>,
         8 := (block_at empty_heap 8)\<lparr>b_chunks := Some [2, 4]\<rparr>)\<rparr>"

text \<open>
  A block tree: module 5 has the child blocks 6 and 7, block 7 has the child block 8,
  and block 8 has an identifier and produces the chunks 2 and 3.
\<close>

definition block_heap :: heap where
  "block_heap =
     empty_heap\<lparr>block_at := (block_at empty_heap)
        (5 := (block_at empty_heap 5)\<lparr>b_identifier := Some ''m'', b_blocks := [6, 7]\<rparr>,
         6 := (block_at empty_heap 6)\<lparr>b_parent := Some 5\<rparr>,
         7 := (block_at empty_heap 7)\<lparr>b_parent := Some 5, b_blocks := [8]\<rparr>,
         8 := (block_at empty_heap 8)\<lparr>b_identifier := Some ''b'', b_parent := Some 7,
                b_chunks := Some [2, 3]\<rparr>)\<rparr>"

text \<open>
  A sequence of calls on the empty heap: two edges 3 \<open>\<rightarrow>\<close> 2 \<open>\<rightarrow>\<close> 4, the removal of chunk 2,
  a split of chunk 3 onto chunk 5, and the merge of chunk 4 into chunk 3.
\<close>

definition example_calls :: "call list" where
  "example_calls =
     [Connect 3 2, Connect 2 4, Remove 2 ''gone'', Split 3 5, Integrate 3 4 ''merged'']"

text \<open>A cycle of two chunks: each of the chunks 2 and 3 is parent and child of the other.\<close>

definition cycle_heap :: heap where
  "cycle_heap =
     empty_heap\<lparr>chunk_at := (\<lambda>_. new_Chunk)
        (3 := mk_chunk [] [] [2] [2], 2 := mk_chunk [] [] [3] [3])\<rparr>"

text \<open>
  How a self-edge comes about from the graph without edges: four matching pairs of
  \<^verbatim>\<open>addChunk\<close> and \<^verbatim>\<open>addParent\<close> make the chain 3 \<open>\<rightarrow>\<close> 2 \<open>\<rightarrow>\<close> 4 and a cycle between
  the chunks 2 and 5; then chunk 5 is removed.
\<close>

definition selfloop_calls :: "call list" where
  "selfloop_calls = [Connect 3 2, Connect 2 4, Connect 2 5, Connect 5 2]"

definition reached_heap :: heap where
  "reached_heap = run_call (Remove 5 ''gone'') (fold run_call selfloop_calls empty_heap)"

section \<open>Properties of SortableSet\<close>

lemma set_Set_add [simp]: "set (Set_add v xs) = insert v (set xs)"
  by (auto simp: Set_add_def)

lemma distinct_Set_add [simp]: "distinct xs \<Longrightarrow> distinct (Set_add v xs)"
  by (simp add: Set_add_def)

lemma set_Set_delete [simp]: "set (Set_delete v xs) = set xs - {v}"
  by (auto simp: Set_delete_def)

lemma distinct_Set_delete [simp]: "distinct xs \<Longrightarrow> distinct (Set_delete v xs)"
  by (simp add: Set_delete_def distinct_removeAll)

lemma fold_Set_add_append:
  "distinct (acc @ xs) \<Longrightarrow> fold Set_add xs acc = acc @ xs"
proof (induction xs arbitrary: acc)
  case Nil
  then show ?case by simp
next
  case (Cons x xs)
  have "Set_add x acc = acc @ [x]"
    using Cons.prems by (simp add: Set_add_def)
  moreover have "distinct ((acc @ [x]) @ xs)"
    using Cons.prems by simp
  ultimately show ?case
    using Cons.IH [of "acc @ [x]"] by simp
qed

lemma fold_Set_add_distinct: "distinct xs \<Longrightarrow> fold Set_add xs [] = xs"
  using fold_Set_add_append [of "[]" xs] by simp

lemma mset_sort_insert: "mset (fst (sort_insert cmp x ys)) = add_mset x (mset ys)"
  by (induction ys) (auto split: prod.splits)

lemma set_sort_insert: "set (fst (sort_insert cmp x ys)) = insert x (set ys)"
  using mset_sort_insert [of cmp x ys] by (metis set_mset_add_mset_insert set_mset_mset)

lemma mset_Array_sort: "mset (fst (Array_sort cmp xs)) = mset xs"
proof (induction xs)
  case Nil
  then show ?case by simp
next
  case (Cons x xs)
  obtain ys n where ys: "Array_sort cmp xs = (ys, n)" by (cases "Array_sort cmp xs")
  obtain zs m where zs: "sort_insert cmp x ys = (zs, m)" by (cases "sort_insert cmp x ys")
  have "mset zs = add_mset x (mset ys)"
    using mset_sort_insert [of cmp x ys] zs by simp
  then show ?case using Cons ys zs by simp
qed

lemma distinct_Array_sort: "distinct xs \<Longrightarrow> distinct (fst (Array_sort cmp xs))"
  using mset_Array_sort [of cmp xs] by (metis distinct_count_atmost_1 set_mset_mset)

lemma sorted_sort_insert:
  assumes "consistent cmp" and "sorted_wrt (\<lambda>a b. cmp a b \<le> 0) ys"
  shows "sorted_wrt (\<lambda>a b. cmp a b \<le> 0) (fst (sort_insert cmp x ys))"
  using assms(2)
proof (induction ys)
  case Nil
  then show ?case by simp
next
  case (Cons y ys)
  show ?case
  proof (cases "cmp x y \<le> 0")
    case True
    have "\<forall>z\<in>set ys. cmp x z \<le> 0"
      using True Cons.prems assms(1) unfolding consistent_def by (metis sorted_wrt.simps(2))
    then show ?thesis using True Cons.prems by simp
  next
    case False
    then have yx: "cmp y x \<le> 0"
      using assms(1) unfolding consistent_def by (metis not_le)
    obtain zs n where zs: "sort_insert cmp x ys = (zs, n)" by (cases "sort_insert cmp x ys")
    have "set zs = insert x (set ys)"
      using set_sort_insert [of cmp x ys] zs by simp
    moreover have "sorted_wrt (\<lambda>a b. cmp a b \<le> 0) zs"
      using Cons zs by simp
    ultimately show ?thesis using False yx zs Cons.prems by auto
  qed
qed

lemma sorted_Array_sort:
  "consistent cmp \<Longrightarrow> sorted_wrt (\<lambda>a b. cmp a b \<le> 0) (fst (Array_sort cmp xs))"
proof (induction xs)
  case Nil
  then show ?case by simp
next
  case (Cons x xs)
  obtain ys n where ys: "Array_sort cmp xs = (ys, n)" by (cases "Array_sort cmp xs")
  obtain zs m where zs: "sort_insert cmp x ys = (zs, m)" by (cases "sort_insert cmp x ys")
  have "sorted_wrt (\<lambda>a b. cmp a b \<le> 0) (fst (sort_insert cmp x ys))"
    using sorted_sort_insert [of cmp ys x] Cons ys by simp
  then show ?case using ys zs by simp
qed

lemma consistent_ascending: "consistent ascending"
  by (auto simp: consistent_def ascending_def)

text \<open>
  Claim C3.  \<^verbatim>\<open>add\<close> forgets the remembered comparator, also for a value that is
  already a member (the members then stay as they are); \<^verbatim>\<open>delete\<close> keeps it.
  \<^verbatim>\<open>sortWith\<close> returns at once, calling no comparator, when no-cache mode is off and
  the set is empty or the comparator is the remembered one; otherwise it leaves the
  same members in the order of the comparator and remembers the comparator.  In the
  scenario, 3, 1, 2 sorted ascending iterate as 1, 2, 3; a second \<^verbatim>\<open>sortWith\<close> makes no
  comparator call; after deleting 2 a third one makes none either and the set is
  1, 3.
\<close>

theorem SortableSet_cache_semantics:
  fixes s :: "('a, 'f) SortableSet" and call :: "'f \<Rightarrow> 'a \<Rightarrow> 'a \<Rightarrow> int"
    and g d :: "'g"
  defines "u \<equiv> fst (sortWith (\<lambda>_. ascending) g
      (SortableSet_add 2 (SortableSet_add 1 (SortableSet_add 3 (new_SortableSet [] d False)))))"
  shows "lastActiveSortFn (SortableSet_add v s) = None
    \<and> (v \<in> set (items s) \<longrightarrow> items (SortableSet_add v s) = items s)
    \<and> lastActiveSortFn (SortableSet_delete v s) = lastActiveSortFn s
    \<and> (\<not> noCache s \<and> (items s = [] \<or> lastActiveSortFn s = Some f)
         \<longrightarrow> sortWith call f s = (s, 0))
    \<and> (\<not> (\<not> noCache s \<and> (items s = [] \<or> lastActiveSortFn s = Some f))
         \<and> distinct (items s) \<and> consistent (call f)
         \<longrightarrow> (\<exists>t n. sortWith call f s = (t, n)
               \<and> mset (items t) = mset (items s)
               \<and> sorted_wrt (\<lambda>a b. call f a b \<le> 0) (items t)
               \<and> lastActiveSortFn t = Some f
               \<and> sortFn t = sortFn s \<and> noCache t = noCache s))
    \<and> items u = [1, 2, 3]
    \<and> sortWith (\<lambda>_. ascending) g u = (u, 0)
    \<and> sortWith (\<lambda>_. ascending) g (SortableSet_delete 2 u) = (SortableSet_delete 2 u, 0)
    \<and> items (SortableSet_delete 2 u) = [1, 3]"
proof -
  have add1: "lastActiveSortFn (SortableSet_add v s) = None"
    by (simp add: SortableSet_add_def)
  have add2: "v \<in> set (items s) \<longrightarrow> items (SortableSet_add v s) = items s"
    by (simp add: SortableSet_add_def Set_add_def)
  have del: "lastActiveSortFn (SortableSet_delete v s) = lastActiveSortFn s"
    by (simp add: SortableSet_delete_def)
  have hit: "\<not> noCache s \<and> (items s = [] \<or> lastActiveSortFn s = Some f)
      \<longrightarrow> sortWith call f s = (s, 0)"
    by (auto simp: sortWith_def SortableSet_size_def)
  have miss: "\<not> (\<not> noCache s \<and> (items s = [] \<or> lastActiveSortFn s = Some f))
         \<and> distinct (items s) \<and> consistent (call f)
         \<longrightarrow> (\<exists>t n. sortWith call f s = (t, n)
               \<and> mset (items t) = mset (items s)
               \<and> sorted_wrt (\<lambda>a b. call f a b \<le> 0) (items t)
               \<and> lastActiveSortFn t = Some f
               \<and> sortFn t = sortFn s \<and> noCache t = noCache s)"
  proof (intro impI, elim conjE)
    assume nohit: "\<not> (\<not> noCache s \<and> (items s = [] \<or> lastActiveSortFn s = Some f))"
      and dist: "distinct (items s)" and cons: "consistent (call f)"
    obtain ys n where ys: "Array_sort (call f) (items s) = (ys, n)"
      by (cases "Array_sort (call f) (items s)")
    have m: "mset ys = mset (items s)"
      using mset_Array_sort [of "call f" "items s"] ys by simp
    have "distinct ys"
      using distinct_Array_sort [OF dist, of "call f"] ys by simp
    then have fold: "fold Set_add ys [] = ys"
      by (rule fold_Set_add_distinct)
    have srt: "sorted_wrt (\<lambda>a b. call f a b \<le> 0) ys"
      using sorted_Array_sort [OF cons, of "items s"] ys by simp
    have "sortWith call f s =
        ((SortableSet_clear s)\<lparr>items := ys, lastActiveSortFn := Some f\<rparr>, n)"
      using nohit ys fold by (auto simp: sortWith_def SortableSet_size_def)
    then show "\<exists>t n. sortWith call f s = (t, n)
               \<and> mset (items t) = mset (items s)
               \<and> sorted_wrt (\<lambda>a b. call f a b \<le> 0) (items t)
               \<and> lastActiveSortFn t = Some f
               \<and> sortFn t = sortFn s \<and> noCache t = noCache s"
      using m srt by (simp add: SortableSet_clear_def)
  qed
  have u: "u = \<lparr>items = [1, 2, 3], sortFn = d, lastActiveSortFn = Some g, noCache = False\<rparr>"
    by (simp add: u_def sortWith_def SortableSet_add_def new_SortableSet_def Set_add_def
        SortableSet_size_def SortableSet_clear_def ascending_def)
  have c1: "items u = [1, 2, 3]"
    by (simp add: u)
  have c2: "sortWith (\<lambda>_. ascending) g u = (u, 0)"
    by (simp add: u sortWith_def)
  have c3: "sortWith (\<lambda>_. ascending) g (SortableSet_delete 2 u) = (SortableSet_delete 2 u, 0)"
    by (simp add: u sortWith_def SortableSet_delete_def)
  have c4: "items (SortableSet_delete 2 u) = [1, 3]"
    by (simp add: u SortableSet_delete_def Set_delete_def)
  show ?thesis
    using add1 add2 del hit miss c1 c2 c3 c4 by blast
qed

theorem SortableSet_cache_semantics_witness:
  "sortWith (\<lambda>_::nat. ascending) 0
      \<lparr>items = [1, 2], sortFn = 0, lastActiveSortFn = Some 0, noCache = False\<rparr>
     = (\<lparr>items = [1, 2], sortFn = 0, lastActiveSortFn = Some 0, noCache = False\<rparr>, 0)
   \<and> (\<exists>t n. sortWith (\<lambda>_::nat. ascending) 0
          \<lparr>items = [2, 1], sortFn = 0, lastActiveSortFn = None, noCache = False\<rparr> = (t, n)
        \<and> sorted_wrt (\<lambda>a b. ascending a b \<le> 0) (items t)
        \<and> lastActiveSortFn t = Some 0)
   \<and> items (SortableSet_add 1
        \<lparr>items = [1, 2], sortFn = 0::nat, lastActiveSortFn = Some 0, noCache = False\<rparr>) = [1, 2::int]"
proof -
  let ?hit = "\<lparr>items = [1, 2::int], sortFn = 0::nat, lastActiveSortFn = Some 0, noCache = False\<rparr>"
  let ?miss = "\<lparr>items = [2, 1::int], sortFn = 0::nat, lastActiveSortFn = None, noCache = False\<rparr>"
  have a: "sortWith (\<lambda>_::nat. ascending) 0 ?hit = (?hit, 0)"
    using SortableSet_cache_semantics [of 1 ?hit 0 "\<lambda>_::nat. ascending" "0::nat" 0] by simp
  have b: "\<exists>t n. sortWith (\<lambda>_::nat. ascending) 0 ?miss = (t, n)
        \<and> sorted_wrt (\<lambda>a b. ascending a b \<le> 0) (items t) \<and> lastActiveSortFn t = Some 0"
    using SortableSet_cache_semantics [of 1 ?miss 0 "\<lambda>_::nat. ascending" "0::nat" 0] consistent_ascending
    by auto
  have c: "items (SortableSet_add 1 ?hit) = [1, 2::int]"
    using SortableSet_cache_semantics [of 1 ?hit 0 "\<lambda>_::nat. ascending" "0::nat" 0] by simp
  show ?thesis using a b c by blast
qed

section \<open>Properties of the heap updates\<close>

lemma chunk_at_upd_chunk [simp]:
  "chunk_at (upd_chunk c f h) x = (if x = c then f (chunk_at h c) else chunk_at h x)"
  by (simp add: upd_chunk_def)

lemma other_upd_chunk [simp]:
  "block_at (upd_chunk c f h) = block_at h"
  "origin_at (upd_chunk c f h) = origin_at h"
  "module_at (upd_chunk c f h) = module_at h"
  "entrypoint_at (upd_chunk c f h) = entrypoint_at h"
  by (simp_all add: upd_chunk_def)

lemma block_at_upd_block [simp]:
  "block_at (upd_block b f h) x = (if x = b then f (block_at h b) else block_at h x)"
  by (simp add: upd_block_def)

lemma other_upd_block [simp]:
  "chunk_at (upd_block b f h) = chunk_at h"
  "origin_at (upd_block b f h) = origin_at h"
  "module_at (upd_block b f h) = module_at h"
  "entrypoint_at (upd_block b f h) = entrypoint_at h"
  by (simp_all add: upd_block_def)

lemma origin_at_upd_origin [simp]:
  "origin_at (upd_origin r f h) x = (if x = r then f (origin_at h r) else origin_at h x)"
  by (simp add: upd_origin_def)

lemma other_upd_origin [simp]:
  "chunk_at (upd_origin r f h) = chunk_at h"
  "block_at (upd_origin r f h) = block_at h"
  "module_at (upd_origin r f h) = module_at h"
  "entrypoint_at (upd_origin r f h) = entrypoint_at h"
  by (simp_all add: upd_origin_def)

lemma module_at_upd_module [simp]:
  "module_at (upd_module m f h) x = (if x = m then f (module_at h m) else module_at h x)"
  by (simp add: upd_module_def)

lemma other_upd_module [simp]:
  "chunk_at (upd_module m f h) = chunk_at h"
  "block_at (upd_module m f h) = block_at h"
  "origin_at (upd_module m f h) = origin_at h"
  "entrypoint_at (upd_module m f h) = entrypoint_at h"
  by (simp_all add: upd_module_def)

section \<open>canBeIntegrated and the cost model\<close>

lemma singleton_iff_length_mem: "(length xs = 1 \<and> x \<in> set xs) \<longleftrightarrow> xs = [x]"
  by (cases xs) auto

text \<open>
  Claim C4.  \<^verbatim>\<open>canBeIntegrated(other)\<close> is false whenever \<open>other\<close> has an entrypoint; for
  \<open>other\<close> without entrypoints and \<open>this\<close> with one, it is true exactly when the parents
  of \<open>other\<close> are \<open>this\<close> alone; when neither has an entrypoint it is true.
\<close>

theorem canBeIntegrated_cases:
  "(c_entrypoints (chunk_at h other) \<noteq> [] \<longrightarrow> \<not> canBeIntegrated this other h)
   \<and> (c_entrypoints (chunk_at h other) = [] \<and> c_entrypoints (chunk_at h this) \<noteq> []
        \<longrightarrow> (canBeIntegrated this other h
              \<longleftrightarrow> items (c_parents (chunk_at h other)) = [this]))
   \<and> (c_entrypoints (chunk_at h other) = [] \<and> c_entrypoints (chunk_at h this) = []
        \<longrightarrow> canBeIntegrated this other h)"
  using singleton_iff_length_mem [of "items (c_parents (chunk_at h other))" this]
  by (auto simp: canBeIntegrated_def isInitial_def SortableSet_size_def SortableSet_has_def)

lemma cost_heap_chunks:
  "chunk_at cost_heap 0 = mk_chunk [0, 1] [0] [1] []"
  "chunk_at cost_heap 1 = mk_chunk [2] [] [] [0]"
  "chunk_at cost_heap (Suc 0) = mk_chunk [2] [] [] [0]"
  "chunk_at cost_heap 2 = new_Chunk"
  "m_size (module_at cost_heap 0) = 60"
  "m_size (module_at cost_heap 1) = 40"
  "m_size (module_at cost_heap (Suc 0)) = 40"
  "m_size (module_at cost_heap 2) = 50"
  by (simp_all add: cost_heap_def)

lemma mk_chunk_fields:
  "c_entrypoints (mk_chunk ms es cs ps) = es"
  "items (c_modules (mk_chunk ms es cs ps)) = fold Set_add ms []"
  "items (c_chunks (mk_chunk ms es cs ps)) = fold Set_add cs []"
  "items (c_parents (mk_chunk ms es cs ps)) = fold Set_add ps []"
  "c_blocks (mk_chunk ms es cs ps) = []"
  "c_origins (mk_chunk ms es cs ps) = []"
  by (simp_all add: mk_chunk_def new_SortableSet_def new_Chunk_def)

lemma new_Chunk_fields:
  "c_entrypoints new_Chunk = []"
  "items (c_modules new_Chunk) = []"
  "items (c_chunks new_Chunk) = []"
  "items (c_parents new_Chunk) = []"
  "c_blocks new_Chunk = []"
  "c_origins new_Chunk = []"
  by (simp_all add: new_SortableSet_def new_Chunk_def)

theorem canBeIntegrated_cases_witness:
  "\<not> canBeIntegrated 1 0 cost_heap \<and> canBeIntegrated 0 1 cost_heap
   \<and> canBeIntegrated 2 1 cost_heap"
  using canBeIntegrated_cases [of cost_heap 0 1] canBeIntegrated_cases [of cost_heap 1 0]
    canBeIntegrated_cases [of cost_heap 1 2]
  by (simp add: cost_heap_chunks mk_chunk_fields new_Chunk_fields Set_add_def)

lemma fold_add_size:
  "fold (\<lambda>m (count::int). count + f m) ms acc = acc + sum_list (map f ms)"
  by (induction ms arbitrary: acc) simp_all

lemma fold_add_size_if:
  "fold (\<lambda>m (sz::int). if P m then sz + f m else sz) ms acc
     = acc + sum_list (map f (filter P ms))"
  by (induction ms arbitrary: acc) simp_all

lemma modulesSize_sum:
  "modulesSize this h = (\<Sum>m\<leftarrow>items (c_modules (chunk_at h this)). m_size (module_at h m))"
  by (simp add: modulesSize_def fold_add_size)

text \<open>
  Claim C5.  \<^verbatim>\<open>integratedSize(other, options)\<close> is \<^verbatim>\<open>false\<close> when \<^verbatim>\<open>canBeIntegrated(other)\<close>
  is false; otherwise it is \<^verbatim>\<open>addMultiplierAndOverhead\<close> of the size of the modules of
  \<open>this\<close> plus the sizes of those modules of \<open>other\<close> that are not members of \<open>this\<close>.
  In the scenario (an initial chunk of module size 100, a chunk without entrypoints
  whose single parent it is, holding one module of size 50 that the first lacks,
  overhead 10000, multiplier 10) the result is 11500.
\<close>

theorem integratedSize_value:
  "integratedSize this other opts h =
     (if canBeIntegrated this other h
      then Some (addMultiplierAndOverhead this
             (modulesSize this h
              + (\<Sum>m\<leftarrow>filter (\<lambda>m. m \<notin> set (items (c_modules (chunk_at h this))))
                        (items (c_modules (chunk_at h other))). m_size (module_at h m)))
             opts h)
      else None)
   \<and> (isInitial this h \<and> modulesSize this h = 100 \<and> \<not> isInitial other h
        \<and> items (c_parents (chunk_at h other)) = [this]
        \<and> items (c_modules (chunk_at h other)) = [m']
        \<and> m' \<notin> set (items (c_modules (chunk_at h this))) \<and> m_size (module_at h m') = 50
        \<and> chunkOverhead opts = Some 10000 \<and> entryChunkMultiplicator opts = Some 10
      \<longrightarrow> integratedSize this other opts h = Some 11500)"
proof -
  have gen: "integratedSize this other opts h =
     (if canBeIntegrated this other h
      then Some (addMultiplierAndOverhead this
             (modulesSize this h
              + (\<Sum>m\<leftarrow>filter (\<lambda>m. m \<notin> set (items (c_modules (chunk_at h this))))
                        (items (c_modules (chunk_at h other))). m_size (module_at h m)))
             opts h)
      else None)"
    by (simp add: integratedSize_def SortableSet_has_def fold_add_size_if)
  have scen: "integratedSize this other opts h = Some 11500"
    if "isInitial this h" "modulesSize this h = 100" "\<not> isInitial other h"
      "items (c_parents (chunk_at h other)) = [this]"
      "items (c_modules (chunk_at h other)) = [m']"
      "m' \<notin> set (items (c_modules (chunk_at h this)))" "m_size (module_at h m') = 50"
      "chunkOverhead opts = Some 10000" "entryChunkMultiplicator opts = Some 10"
  proof -
    have "canBeIntegrated this other h"
      using that by (simp add: canBeIntegrated_def SortableSet_size_def SortableSet_has_def)
    then show ?thesis
      using that by (simp add: gen addMultiplierAndOverhead_def)
  qed
  show ?thesis using gen scen by blast
qed

theorem integratedSize_value_witness:
  "integratedSize 0 1 \<lparr>chunkOverhead = Some 10000, entryChunkMultiplicator = Some 10\<rparr> cost_heap
     = Some 11500
   \<and> integratedSize 1 0 \<lparr>chunkOverhead = Some 10000, entryChunkMultiplicator = Some 10\<rparr> cost_heap
     = None"
proof -
  let ?o = "\<lparr>chunkOverhead = Some 10000, entryChunkMultiplicator = Some 10\<rparr>"
  have m: "modulesSize 0 cost_heap = 100"
    by (simp add: modulesSize_def cost_heap_chunks mk_chunk_fields Set_add_def)
  have hyp: "isInitial 0 cost_heap \<and> modulesSize 0 cost_heap = 100 \<and> \<not> isInitial 1 cost_heap
        \<and> items (c_parents (chunk_at cost_heap 1)) = [0]
        \<and> items (c_modules (chunk_at cost_heap 1)) = [2]
        \<and> 2 \<notin> set (items (c_modules (chunk_at cost_heap 0)))
        \<and> m_size (module_at cost_heap 2) = 50
        \<and> chunkOverhead ?o = Some 10000 \<and> entryChunkMultiplicator ?o = Some 10"
    using m by (simp add: isInitial_def cost_heap_chunks mk_chunk_fields Set_add_def)
  have a: "integratedSize 0 1 ?o cost_heap = Some 11500"
    by (rule integratedSize_value [of 0 1 ?o cost_heap 2, THEN conjunct2, THEN mp, OF hyp])
  have "\<not> canBeIntegrated 1 0 cost_heap"
    by (simp add: canBeIntegrated_def isInitial_def cost_heap_chunks mk_chunk_fields)
  then have b: "integratedSize 1 0 ?o cost_heap = None"
    using integratedSize_value [of 1 0 ?o cost_heap 2, THEN conjunct1] by simp
  show ?thesis using a b by simp
qed

text \<open>
  Claim C10.  For an initial chunk an \<^verbatim>\<open>entryChunkMultiplicator\<close> of 0 is replaced by the
  default 10, whatever the overhead; a \<^verbatim>\<open>chunkOverhead\<close> of 0 is kept, whatever the
  multiplier option and the chunk; so with both 0 an initial chunk gets ten times the
  size.
\<close>

theorem addMultiplierAndOverhead_falsy:
  "(isInitial this h \<longrightarrow>
      addMultiplierAndOverhead this sz \<lparr>chunkOverhead = ov, entryChunkMultiplicator = Some 0\<rparr> h
        = sz * 10 + (case ov of Some n \<Rightarrow> n | None \<Rightarrow> 10000))
   \<and> addMultiplierAndOverhead this sz \<lparr>chunkOverhead = Some 0, entryChunkMultiplicator = em\<rparr> h
        = sz * (if isInitial this h
                then (case em of Some n \<Rightarrow> if n = 0 then 10 else n | None \<Rightarrow> 10) else 1)
   \<and> (isInitial this h \<longrightarrow>
      addMultiplierAndOverhead this sz \<lparr>chunkOverhead = Some 0, entryChunkMultiplicator = Some 0\<rparr> h
        = sz * 10)"
  by (simp add: addMultiplierAndOverhead_def)

theorem addMultiplierAndOverhead_falsy_witness:
  "addMultiplierAndOverhead 0 7 \<lparr>chunkOverhead = Some 0, entryChunkMultiplicator = Some 0\<rparr> cost_heap
     = 70
   \<and> addMultiplierAndOverhead 0 7 \<lparr>chunkOverhead = None, entryChunkMultiplicator = Some 0\<rparr> cost_heap
     = 10070"
proof -
  have i: "isInitial 0 cost_heap"
    by (simp add: isInitial_def cost_heap_chunks mk_chunk_fields)
  show ?thesis
    using addMultiplierAndOverhead_falsy [of 0 cost_heap 7 None]
      addMultiplierAndOverhead_falsy [of 0 cost_heap 7 "Some 0"] i
    by simp
qed

section \<open>Frames of the edge primitives\<close>

lemma fold_preserves: "(\<And>x h. g (f x h) = g h) \<Longrightarrow> g (fold f xs h) = g h"
  by (induction xs arbitrary: h) simp_all

lemma set_items_edges [simp]:
  "set (items (c_chunks (chunk_at h a))) = children h a"
  "set (items (c_parents (chunk_at h a))) = parents h a"
  by (simp_all add: children_def parents_def)

lemma children_upd_chunk [simp]:
  "children (upd_chunk c f h) a
     = (if a = c then set (items (c_chunks (f (chunk_at h c)))) else children h a)"
  by (simp add: children_def del: set_items_edges)

lemma parents_upd_chunk [simp]:
  "parents (upd_chunk c f h) a
     = (if a = c then set (items (c_parents (f (chunk_at h c)))) else parents h a)"
  by (simp add: parents_def del: set_items_edges)

lemma items_SortableSet_ops [simp]:
  "items (SortableSet_add v s) = Set_add v (items s)"
  "items (SortableSet_delete v s) = Set_delete v (items s)"
  "items (SortableSet_clear s) = []"
  by (simp_all add: SortableSet_add_def SortableSet_delete_def SortableSet_clear_def)

lemma children_addChunk [simp]:
  "children (snd (addChunk p c h)) a = (if a = p then insert c (children h p) else children h a)"
  by (auto simp: addChunk_def SortableSet_has_def)

lemma parents_addChunk [simp]: "parents (snd (addChunk p c h)) a = parents h a"
  by (auto simp: addChunk_def)

lemma parents_addParent [simp]:
  "parents (snd (addParent c p h)) a = (if a = c then insert p (parents h c) else parents h a)"
  by (auto simp: addParent_def SortableSet_has_def)

lemma children_addParent [simp]: "children (snd (addParent c p h)) a = children h a"
  by (auto simp: addParent_def)

lemma addChunk_frame [simp]:
  "block_at (snd (addChunk p c h)) = block_at h"
  "origin_at (snd (addChunk p c h)) = origin_at h"
  "c_blocks (chunk_at (snd (addChunk p c h)) a) = c_blocks (chunk_at h a)"
  "c_origins (chunk_at (snd (addChunk p c h)) a) = c_origins (chunk_at h a)"
  "c_entrypoints (chunk_at (snd (addChunk p c h)) a) = c_entrypoints (chunk_at h a)"
  by (simp_all add: addChunk_def)

lemma addParent_frame [simp]:
  "block_at (snd (addParent p c h)) = block_at h"
  "origin_at (snd (addParent p c h)) = origin_at h"
  "c_blocks (chunk_at (snd (addParent p c h)) a) = c_blocks (chunk_at h a)"
  "c_origins (chunk_at (snd (addParent p c h)) a) = c_origins (chunk_at h a)"
  "c_entrypoints (chunk_at (snd (addParent p c h)) a) = c_entrypoints (chunk_at h a)"
  by (simp_all add: addParent_def)

section \<open>remove on the edge relation\<close>

lemma children_remove_connect_fold:
  "children (fold (remove_connect X P) cs h) a
     = (if a = P then children h a \<union> set cs else children h a)"
  by (induction cs arbitrary: h) (auto simp: remove_connect_def)

lemma parents_remove_connect_fold:
  "parents (fold (remove_connect X P) cs h) b
     = (if b \<in> set cs then insert P (parents h b) else parents h b)"
  by (induction cs arbitrary: h) (auto simp: remove_connect_def)

lemma children_remove_parent:
  "children (remove_parent X P h) a
     = (if a = P then (children h P - {X}) \<union> (if X = P then children h X - {X} else children h X)
        else children h a)"
  by (auto simp: remove_parent_def Let_def children_remove_connect_fold)

lemma parents_remove_parent:
  "parents (remove_parent X P h) b
     = (if b \<in> (if X = P then children h X - {X} else children h X)
        then insert P (parents h b) else parents h b)"
  by (auto simp: remove_parent_def Let_def parents_remove_connect_fold)

lemma remove_parent_fold:
  assumes "X \<notin> set ps" "X \<notin> children h X"
  shows "(\<forall>a. children (fold (remove_parent X) ps h) a
           = (if a \<in> set ps then (children h a - {X}) \<union> children h X else children h a))
    \<and> (\<forall>b. parents (fold (remove_parent X) ps h) b
           = (if b \<in> children h X then parents h b \<union> set ps else parents h b))"
  using assms
proof (induction ps arbitrary: h)
  case Nil
  show ?case by simp
next
  case (Cons P ps)
  have PX: "P \<noteq> X" "X \<notin> set ps" using Cons.prems(1) by auto
  let ?h = "remove_parent X P h"
  have cX: "children ?h X = children h X"
    using PX by (simp add: children_remove_parent)
  have nX: "X \<notin> children ?h X" using Cons.prems(2) cX by simp
  show ?case
    using Cons.IH [OF PX(2) nX] PX Cons.prems(2)
    by (auto simp: cX children_remove_parent parents_remove_parent)
qed

lemma Module_removeChunk_edges [simp]:
  "children (snd (Module_removeChunk m c h)) a = children h a"
  "parents (snd (Module_removeChunk m c h)) a = parents h a"
  by (simp_all add: Module_removeChunk_def children_def parents_def del: set_items_edges)

lemma remove_modules_edges [simp]:
  "children (remove_modules X h) a = children h a"
  "parents (remove_modules X h) a = parents h a"
  unfolding remove_modules_def
  by (rule fold_preserves, simp)+

lemma remove_children_edges:
  "children (fold (\<lambda>chunk. upd_chunk chunk
        (\<lambda>c. c\<lparr>c_parents := SortableSet_delete X (c_parents c)\<rparr>)) cs h) a = children h a"
  "parents (fold (\<lambda>chunk. upd_chunk chunk
        (\<lambda>c. c\<lparr>c_parents := SortableSet_delete X (c_parents c)\<rparr>)) cs h) b
     = (if b \<in> set cs then parents h b - {X} else parents h b)"
  by (induction cs arbitrary: h) auto

lemma chunk_at_remove_block: "chunk_at (heap_of (remove_block r X b h)) = chunk_at h"
  by (simp add: remove_block_def split: option.splits)

lemma chunk_at_remove_blocks: "chunk_at (heap_of (remove_blocks r X bs h)) = chunk_at h"
proof (induction bs arbitrary: h)
  case Nil
  show ?case by simp
next
  case (Cons b bs)
  show ?case
  proof (cases "remove_block r X b h")
    case (Inl e)
    then show ?thesis
      using chunk_at_remove_block [of r X b h] by (cases e) simp
  next
    case (Inr h')
    then show ?thesis
      using chunk_at_remove_block [of r X b h] Cons [of h'] by simp
  qed
qed

lemma edges_remove_blocks [simp]:
  "children (heap_of (remove_blocks r X bs h)) a = children h a"
  "parents (heap_of (remove_blocks r X bs h)) a = parents h a"
  by (simp_all add: children_def parents_def chunk_at_remove_blocks del: set_items_edges)

lemma Chunk_remove_edges:
  assumes "X \<notin> children h X" "X \<notin> parents h X"
  shows "children (heap_of (Chunk_remove X r h)) a
           = (if a \<in> parents h X then (children h a - {X}) \<union> children h X else children h a)"
    and "parents (heap_of (Chunk_remove X r h)) b
           = (if b \<in> children h X then (parents h b \<union> parents h X) - {X} else parents h b)"
proof -
  let ?h1 = "remove_modules X h"
  let ?h2 = "remove_parents X ?h1"
  have a1: "X \<notin> set (items (c_parents (chunk_at ?h1 X)))" "X \<notin> children ?h1 X"
    using assms by simp_all
  note rp = remove_parent_fold [OF a1, folded remove_parents_def]
  have c2: "children ?h2 a = (if a \<in> parents h X then (children h a - {X}) \<union> children h X else children h a)" for a
    using rp by simp
  have p2: "parents ?h2 b = (if b \<in> children h X then parents h b \<union> parents h X else parents h b)" for b
    using rp by simp
  show "children (heap_of (Chunk_remove X r h)) a
           = (if a \<in> parents h X then (children h a - {X}) \<union> children h X else children h a)"
    by (simp add: Chunk_remove_def Let_def remove_children_def remove_children_edges c2)
  have "children ?h2 X = children h X"
    using c2 [of X] assms by simp
  then show "parents (heap_of (Chunk_remove X r h)) b
           = (if b \<in> children h X then (parents h b \<union> parents h X) - {X} else parents h b)"
    using assms by (auto simp: Chunk_remove_def Let_def remove_children_def remove_children_edges p2)
qed

lemma remove_parent_mono:
  "children h a - {X} \<subseteq> children (remove_parent X P h) a"
  "parents h b \<subseteq> parents (remove_parent X P h) b"
  by (auto simp: children_remove_parent parents_remove_parent)

lemma remove_parent_fold_mono:
  "children h a - {X} \<subseteq> children (fold (remove_parent X) ps h) a
   \<and> parents h b \<subseteq> parents (fold (remove_parent X) ps h) b"
proof (induction ps arbitrary: h)
  case Nil
  show ?case by simp
next
  case (Cons P ps)
  show ?case
    using Cons [of "remove_parent X P h"] remove_parent_mono [of h a X P]
      remove_parent_mono(2) [of h b X P]
    by auto
qed

lemma Chunk_remove_mono:
  "children h a - {X} \<subseteq> children (heap_of (Chunk_remove X r h)) a"
  "parents h b - {X} \<subseteq> parents (heap_of (Chunk_remove X r h)) b"
proof -
  let ?h1 = "remove_modules X h"
  have m: "children ?h1 a - {X} \<subseteq> children (remove_parents X ?h1) a
     \<and> parents ?h1 b \<subseteq> parents (remove_parents X ?h1) b"
    unfolding remove_parents_def by (rule remove_parent_fold_mono)
  show "children h a - {X} \<subseteq> children (heap_of (Chunk_remove X r h)) a"
    using m by (simp add: Chunk_remove_def Let_def remove_children_def remove_children_edges)
  show "parents h b - {X} \<subseteq> parents (heap_of (Chunk_remove X r h)) b"
    using m by (auto simp: Chunk_remove_def Let_def remove_children_def remove_children_edges)
qed

lemma remove_heap_edges:
  "children remove_heap 3 = {2}" "parents remove_heap 3 = {}"
  "children remove_heap 2 = {4}" "parents remove_heap 2 = {3}"
  "children remove_heap 4 = {}" "parents remove_heap 4 = {2}"
  by (simp_all add: remove_heap_def children_def parents_def mk_chunk_fields Set_add_def del: set_items_edges)

lemma selfloop_heap_items:
  "items (c_chunks (chunk_at selfloop_heap 2)) = [2, 4]"
  "items (c_parents (chunk_at selfloop_heap 2)) = [3, 2]"
  by (simp_all add: selfloop_heap_def mk_chunk_fields Set_add_def)

lemma selfloop_heap_edges:
  "children selfloop_heap 3 = {2}" "parents selfloop_heap 3 = {}"
  "children selfloop_heap 2 = {2, 4}" "parents selfloop_heap 2 = {3, 2}"
  "children selfloop_heap 4 = {}" "parents selfloop_heap 4 = {2}"
  by (simp_all add: selfloop_heap_def children_def parents_def mk_chunk_fields Set_add_def del: set_items_edges)

text \<open>
  Claim C6, amended.  \<^verbatim>\<open>remove\<close> does not clear the removed chunk's own edge sets.
  After \<^verbatim>\<open>X.remove(reason)\<close>, whether it returned or threw, every chunk other than \<open>X\<close>
  that was in the child set or the parent set of \<open>X\<close> is still there; when \<open>X\<close> has no
  self-edge both sets hold exactly the members they held before.  What is cleared is
  the neighbours' side: \<open>X\<close> is in the child set of none of its former parents and in
  the parent set of none of its former children.
\<close>

theorem remove_keeps_own_edges:
  "children h X - {X} \<subseteq> children (heap_of (Chunk_remove X r h)) X
   \<and> parents h X - {X} \<subseteq> parents (heap_of (Chunk_remove X r h)) X
   \<and> (X \<notin> children h X \<and> X \<notin> parents h X \<longrightarrow>
        children (heap_of (Chunk_remove X r h)) X = children h X
        \<and> parents (heap_of (Chunk_remove X r h)) X = parents h X
        \<and> (\<forall>P\<in>parents h X. X \<notin> children (heap_of (Chunk_remove X r h)) P)
        \<and> (\<forall>C\<in>children h X. X \<notin> parents (heap_of (Chunk_remove X r h)) C))"
  using Chunk_remove_mono [of h X X r]
  by (auto simp: Chunk_remove_edges)

theorem remove_keeps_own_edges_witness:
  "children (heap_of (Chunk_remove 2 ''merged'' remove_heap)) 2 = {4}
   \<and> parents (heap_of (Chunk_remove 2 ''merged'' remove_heap)) 2 = {3}
   \<and> 2 \<notin> children (heap_of (Chunk_remove 2 ''merged'' remove_heap)) 3
   \<and> 2 \<notin> parents (heap_of (Chunk_remove 2 ''merged'' remove_heap)) 4"
  using remove_keeps_own_edges [of remove_heap 2 "''merged''"]
  by (simp add: remove_heap_edges)

text \<open>
  What \<^verbatim>\<open>remove\<close> does for a chunk \<open>X\<close> that is neither its own child nor its own
  parent, with a parent \<open>P\<close> and a child \<open>C\<close>.
\<close>

lemma remove_short_circuit_without_self_edge:
  assumes "X \<notin> children h X" "X \<notin> parents h X" "P \<in> parents h X" "C \<in> children h X"
  shows "C \<in> children (heap_of (Chunk_remove X r h)) P
    \<and> P \<in> parents (heap_of (Chunk_remove X r h)) C
    \<and> X \<notin> children (heap_of (Chunk_remove X r h)) P
    \<and> X \<notin> parents (heap_of (Chunk_remove X r h)) C"
  using assms by (auto simp: Chunk_remove_edges)

text \<open>
  Claim C6 as stated fails: chunk 2 of the chain still has its parent 3 in its own
  parent set after \<^verbatim>\<open>remove\<close>.
\<close>

theorem remove_clears_own_edges_counterexample:
  "items (c_parents (chunk_at (heap_of (Chunk_remove 2 ''merged'' remove_heap)) 2)) \<noteq> []"
proof -
  have "parents (heap_of (Chunk_remove 2 ''merged'' remove_heap)) 2 = {3}"
    by (simp add: Chunk_remove_edges remove_heap_edges)
  then show ?thesis
    by (auto simp: parents_def simp del: set_items_edges)
qed

text \<open>
  The same call on a chunk with a self-edge: chunk 2 has the parent 3 and the child 4,
  and after \<^verbatim>\<open>remove\<close> it is again in the child set of 3, put back by the inner loop
  when it visits 2 as a child of itself.
\<close>

lemma remove_on_self_edge:
  "3 \<in> parents selfloop_heap 2 \<and> 4 \<in> children selfloop_heap 2
   \<and> 2 \<in> children (heap_of (Chunk_remove 2 ''merged'' selfloop_heap)) 3"
proof -
  have p: "items (c_parents (chunk_at (remove_modules 2 selfloop_heap) 2)) = [3, 2]"
    by (simp add: remove_modules_def selfloop_heap_def mk_chunk_fields Set_add_def)
  have "children (remove_parents 2 (remove_modules 2 selfloop_heap)) 3 = {2, 4}"
    by (simp add: remove_parents_def p children_remove_parent selfloop_heap_edges)
  then have "2 \<in> children (heap_of (Chunk_remove 2 ''merged'' selfloop_heap)) 3"
    by (simp add: Chunk_remove_def Let_def remove_children_def remove_children_edges)
  then show ?thesis
    by (simp add: selfloop_heap_edges)
qed


section \<open>Blocks and origins are left alone by the edge and module operations\<close>

lemma origins_view_eqD:
  "origins_view h' = origins_view h \<Longrightarrow>
     origin_at h' = origin_at h \<and> c_origins (chunk_at h' a) = c_origins (chunk_at h a)"
  by (auto simp: origins_view_def dest: fun_cong)

lemma origins_view_upd_chunk:
  "(\<And>c. c_origins (f c) = c_origins c) \<Longrightarrow> origins_view (upd_chunk a f h) = origins_view h"
  by (auto simp: origins_view_def)

lemma origins_view_upd_other [simp]:
  "origins_view (upd_block b g h) = origins_view h"
  "origins_view (upd_module m k h) = origins_view h"
  by (simp_all add: origins_view_def)

lemma prims_blocks [simp]:
  "block_at (snd (addModule a m h)) = block_at h"
  "block_at (snd (Module_removeChunk m a h)) = block_at h"
  "block_at (Module_addChunk m a h) = block_at h"
  "block_at (Module_rewriteChunkInReasons m a as h) = block_at h"
  by (simp_all add: addModule_def Module_removeChunk_def Module_addChunk_def
      Module_rewriteChunkInReasons_def)

lemma prims_origins [simp]:
  "origins_view (snd (addChunk p c h)) = origins_view h"
  "origins_view (snd (addParent c p h)) = origins_view h"
  "origins_view (snd (addModule a m h)) = origins_view h"
  "origins_view (snd (addBlock a b h)) = origins_view h"
  "origins_view (snd (Module_removeChunk m a h)) = origins_view h"
  "origins_view (Module_addChunk m a h) = origins_view h"
  "origins_view (Module_rewriteChunkInReasons m a as h) = origins_view h"
  by (simp_all add: addChunk_def addParent_def addModule_def addBlock_def Module_removeChunk_def
      Module_addChunk_def Module_rewriteChunkInReasons_def origins_view_upd_chunk
      split: prod.splits)

lemma moveModule_frame [simp]:
  "block_at (moveModule a m b h) = block_at h"
  "origins_view (moveModule a m b h) = origins_view h"
  by (simp_all add: moveModule_def Let_def)

lemma replaceChunk_frame [simp]:
  "block_at (replaceChunk a old new h) = block_at h"
  "origins_view (replaceChunk a old new h) = origins_view h"
  by (simp_all add: replaceChunk_def Let_def origins_view_upd_chunk case_prod_beta)

lemma replaceParentChunk_frame [simp]:
  "block_at (replaceParentChunk a old new h) = block_at h"
  "origins_view (replaceParentChunk a old new h) = origins_view h"
  by (simp_all add: replaceParentChunk_def Let_def origins_view_upd_chunk case_prod_beta)

lemma integrate_modules_frame [simp]:
  "block_at (integrate_modules this other h) = block_at h"
  "origins_view (integrate_modules this other h) = origins_view h"
  by (simp_all add: integrate_modules_def origins_view_upd_chunk fold_preserves)

lemma integrate_parents_frame [simp]:
  "block_at (integrate_parents this other h) = block_at h"
  "origins_view (integrate_parents this other h) = origins_view h"
  by (simp_all add: integrate_parents_def origins_view_upd_chunk fold_preserves)

lemma integrate_children_frame [simp]:
  "block_at (integrate_children this other h) = block_at h"
  "origins_view (integrate_children this other h) = origins_view h"
  by (simp_all add: integrate_children_def origins_view_upd_chunk fold_preserves)

lemma integrate_block_origins [simp]:
  "origins_view (integrate_block this other r b h) = origins_view h"
  by (simp add: integrate_block_def)

lemma integrate_blocks_origins [simp]:
  "origins_view (integrate_blocks this other r h) = origins_view h"
  by (simp add: integrate_blocks_def origins_view_upd_chunk fold_preserves)

lemma integrate_cleanup_frame [simp]:
  "block_at (integrate_cleanup this other h) = block_at h"
  "origins_view (integrate_cleanup this other h) = origins_view h"
  by (simp_all add: integrate_cleanup_def origins_view_upd_chunk)

lemma integrate_origins_blocks [simp]:
  "block_at (integrate_origins this other r h) = block_at h"
  by (simp add: integrate_origins_def Let_def integrate_origin_def fold_preserves)

lemma remove_stage_blocks [simp]:
  "block_at (remove_modules X h) = block_at h"
  "block_at (remove_parents X h) = block_at h"
  "block_at (remove_children X h) = block_at h"
  by (simp_all add: remove_modules_def remove_parents_def remove_children_def remove_parent_def
      remove_connect_def Let_def fold_preserves)

section \<open>The chunk list of a block\<close>

lemma block_ok_remove_block:
  "block_ok (block_at h b) \<Longrightarrow> block_ok (block_at (heap_of (remove_block r X blk h)) b)"
  by (auto simp: remove_block_def block_ok_def split: option.splits)

lemma block_ok_remove_blocks:
  "block_ok (block_at h b) \<Longrightarrow> block_ok (block_at (heap_of (remove_blocks r X bs h)) b)"
proof (induction bs arbitrary: h)
  case Nil
  then show ?case by simp
next
  case (Cons blk bs)
  show ?case
  proof (cases "remove_block r X blk h")
    case (Inl e)
    then show ?thesis
      using block_ok_remove_block [OF Cons.prems, of r X blk] by (cases e) simp
  next
    case (Inr h')
    then have "block_ok (block_at h' b)"
      using block_ok_remove_block [OF Cons.prems, of r X blk] by simp
    then show ?thesis
      using Cons.IH [of h'] Inr by simp
  qed
qed

lemma block_ok_integrate_block:
  "block_ok (block_at h b) \<Longrightarrow> block_ok (block_at (integrate_block this other r blk h) b)"
  by (auto simp: integrate_block_def addBlock_def block_ok_def split: option.splits prod.splits)

lemma block_ok_integrate_blocks:
  "block_ok (block_at h b) \<Longrightarrow> block_ok (block_at (integrate_blocks this other r h) b)"
proof -
  have "block_ok (block_at h b) \<Longrightarrow> block_ok (block_at (fold (integrate_block this other r) bs h) b)"
    for bs
    by (induction bs arbitrary: h) (simp_all add: block_ok_integrate_block)
  then show "block_ok (block_at h b) \<Longrightarrow> ?thesis"
    by (simp add: integrate_blocks_def)
qed

lemma integrate_heap_facts:
  "c_origins (chunk_at integrate_heap 3) = [10]"
  "c_origins (chunk_at integrate_heap 2) = [11]"
  "o_reasons (origin_at integrate_heap x) = None"
  "canBeIntegrated 3 2 integrate_heap"
  "block_at integrate_heap 7 = (block_at empty_heap 7)\<lparr>b_chunks := Some [2]\<rparr>"
  by (simp_all add: integrate_heap_def empty_heap_def mk_chunk_fields canBeIntegrated_def isInitial_def)

text \<open>
  Claim C8.  A block whose chunk list is a non-empty list, or \<^verbatim>\<open>null\<close> with a reason
  recorded, is such a block again after \<^verbatim>\<open>Chunk.remove(reason)\<close>, whether it returned or
  threw, and after \<^verbatim>\<open>Chunk.integrate(other, reason)\<close>; its chunk list is never the empty
  list.
\<close>

theorem block_chunks_invariant:
  assumes "block_ok (block_at h b)"
  shows "block_ok (block_at (heap_of (Chunk_remove X reason h)) b)
    \<and> block_ok (block_at (snd (integrate this other reason h)) b)
    \<and> b_chunks (block_at (heap_of (Chunk_remove X reason h)) b) \<noteq> Some []
    \<and> b_chunks (block_at (snd (integrate this other reason h)) b) \<noteq> Some []"
proof -
  have r: "block_ok (block_at (heap_of (Chunk_remove X reason h)) b)"
    using assms by (simp add: Chunk_remove_def Let_def block_ok_remove_blocks)
  have i: "block_ok (block_at (snd (integrate this other reason h)) b)"
    using assms by (simp add: integrate_def Let_def block_ok_integrate_blocks)
  show ?thesis
    using r i by (auto simp: block_ok_def)
qed

theorem block_chunks_invariant_witness:
  "block_ok (block_at integrate_heap 7)
   \<and> block_ok (block_at (heap_of (Chunk_remove 2 ''merged'' integrate_heap)) 7)
   \<and> block_ok (block_at (snd (integrate 3 2 ''merged'' integrate_heap)) 7)"
proof -
  have ok: "block_ok (block_at integrate_heap 7)"
    by (simp add: integrate_heap_facts block_ok_def)
  show ?thesis
    using block_chunks_invariant [OF ok, of 2 "''merged''" 3 2] ok by simp
qed

section \<open>Origins in integrate\<close>

lemma add_reason_idem: "add_reason r (add_reason r rs) = add_reason r rs"
  by (auto simp: add_reason_def split: option.splits list.splits)

lemma add_reason_cases:
  "add_reason r rs =
     (case rs of None \<Rightarrow> Some [r]
      | Some xs \<Rightarrow> if xs \<noteq> [] \<and> hd xs = r then Some xs else Some (r # xs))"
  by (auto simp: add_reason_def split: option.splits list.splits)

lemma push_origins_fold:
  "c_origins (chunk_at (fold (\<lambda>orig. upd_chunk this (\<lambda>c. c\<lparr>c_origins := c_origins c @ [orig]\<rparr>)) os h) a)
     = (if a = this then c_origins (chunk_at h this) @ os else c_origins (chunk_at h a))"
  by (induction os arbitrary: h) simp_all

lemma push_origins_fold_origin_at:
  "origin_at (fold (\<lambda>orig. upd_chunk this (\<lambda>c. c\<lparr>c_origins := c_origins c @ [orig]\<rparr>)) os h)
     = origin_at h"
  by (simp add: fold_preserves)

lemma integrate_origin_fold_chunk_at:
  "chunk_at (fold (integrate_origin r) os h) = chunk_at h"
  by (simp add: fold_preserves integrate_origin_def)

lemma integrate_origin_fold:
  "o_reasons (origin_at (fold (integrate_origin r) os h) x)
     = (if x \<in> set os then add_reason r (o_reasons (origin_at h x))
        else o_reasons (origin_at h x))"
  by (induction os arbitrary: h) (auto simp: integrate_origin_def add_reason_idem)

lemma integrate_origin_fold_other:
  "x \<notin> set os \<Longrightarrow> origin_at (fold (integrate_origin r) os h) x = origin_at h x"
  by (induction os arbitrary: h) (auto simp: integrate_origin_def)

lemma integrate_origins_result:
  "c_origins (chunk_at (integrate_origins this other r h) a)
     = (if a = this then c_origins (chunk_at h this) @ c_origins (chunk_at h other)
        else c_origins (chunk_at h a))"
  "o_reasons (origin_at (integrate_origins this other r h) x)
     = (if x \<in> set (c_origins (chunk_at h this) @ c_origins (chunk_at h other))
        then add_reason r (o_reasons (origin_at h x)) else o_reasons (origin_at h x))"
  "x \<notin> set (c_origins (chunk_at h this) @ c_origins (chunk_at h other))
     \<Longrightarrow> origin_at (integrate_origins this other r h) x = origin_at h x"
  by (simp_all add: integrate_origins_def Let_def integrate_origin_fold_chunk_at push_origins_fold
      integrate_origin_fold push_origins_fold_origin_at integrate_origin_fold_other
      add_reason_idem)

lemma integrate_before_origins:
  "origins_view (integrate_blocks this other r (integrate_children this other
      (integrate_parents this other (integrate_modules this other h)))) = origins_view h"
  by simp

text \<open>
  Claim C7, amended.  A successful \<^verbatim>\<open>integrate(other, reason)\<close> appends the origins of
  \<open>other\<close> to those of \<open>this\<close>, and then gives the reason to every origin of the
  resulting list, the origins \<open>this\<close> held before and the ones appended from \<open>other\<close>
  alike: an origin without a reasons list gets the list holding the reason, otherwise
  the reason is put in front unless it is the first entry already.  Origins outside
  that list are left as they are.
\<close>

theorem integrate_origins_reasons:
  assumes "canBeIntegrated this other h"
  shows "fst (integrate this other reason h)
    \<and> c_origins (chunk_at (snd (integrate this other reason h)) this)
        = c_origins (chunk_at h this) @ c_origins (chunk_at h other)
    \<and> (\<forall>x\<in>set (c_origins (chunk_at h this) @ c_origins (chunk_at h other)).
          o_reasons (origin_at (snd (integrate this other reason h)) x) =
          (case o_reasons (origin_at h x) of
             None \<Rightarrow> Some [reason]
           | Some rs \<Rightarrow> if rs \<noteq> [] \<and> hd rs = reason then Some rs else Some (reason # rs)))
    \<and> (\<forall>x. x \<notin> set (c_origins (chunk_at h this) @ c_origins (chunk_at h other))
          \<longrightarrow> origin_at (snd (integrate this other reason h)) x = origin_at h x)"
proof -
  define h' where "h' = snd (integrate this other reason h)"
  define os where "os = c_origins (chunk_at h this) @ c_origins (chunk_at h other)"
  let ?h4 = "integrate_blocks this other reason (integrate_children this other
      (integrate_parents this other (integrate_modules this other h)))"
  let ?h5 = "integrate_origins this other reason ?h4"
  have v: "origin_at ?h4 = origin_at h" "\<And>a. c_origins (chunk_at ?h4 a) = c_origins (chunk_at h a)"
    using origins_view_eqD [OF integrate_before_origins [of this other reason h]] by simp_all
  have h': "h' = integrate_cleanup this other ?h5"
    using assms(1) by (simp add: h'_def integrate_def Let_def)
  have w: "origin_at h' = origin_at ?h5" "c_origins (chunk_at h' this) = c_origins (chunk_at ?h5 this)"
    using origins_view_eqD [OF integrate_cleanup_frame(2) [of this other ?h5]] h' by simp_all
  have 1: "fst (integrate this other reason h)"
    using assms(1) by (simp add: integrate_def Let_def)
  have 2: "c_origins (chunk_at h' this) = os"
    by (simp add: w integrate_origins_result v os_def)
  have 3: "o_reasons (origin_at h' x) = add_reason reason (o_reasons (origin_at h x))"
    if "x \<in> set os" for x
    using that by (simp add: w integrate_origins_result(2) v os_def)
  have 4: "origin_at h' x = origin_at h x" if "x \<notin> set os" for x
    using that integrate_origins_result(3) [of x ?h4 this other reason]
    by (simp add: w v os_def)
  show ?thesis
    using 1 2 3 4 unfolding h'_def os_def by (simp add: add_reason_cases)
qed

theorem integrate_origins_reasons_witness:
  "c_origins (chunk_at (snd (integrate 3 2 ''merged'' integrate_heap)) 3) = [10, 11]
   \<and> o_reasons (origin_at (snd (integrate 3 2 ''merged'' integrate_heap)) 10) = Some [''merged'']
   \<and> o_reasons (origin_at (snd (integrate 3 2 ''merged'' integrate_heap)) 12) = None"
  using integrate_origins_reasons [OF integrate_heap_facts(4), of "''merged''"]
  by (simp add: integrate_heap_facts)

text \<open>
  Claim C7 as stated fails: origin 11 comes from \<open>other\<close> only, has no reasons before the
  call, and has the reason after it.
\<close>

theorem integrate_origins_reasons_counterexample:
  "fst (integrate 3 2 ''merged'' integrate_heap)
   \<and> 11 \<in> set (c_origins (chunk_at integrate_heap 2))
   \<and> 11 \<notin> set (c_origins (chunk_at integrate_heap 3))
   \<and> o_reasons (origin_at integrate_heap 11) = None
   \<and> o_reasons (origin_at (snd (integrate 3 2 ''merged'' integrate_heap)) 11) = Some [''merged'']"
proof -
  let ?h4 = "integrate_blocks 3 2 ''merged'' (integrate_children 3 2
      (integrate_parents 3 2 (integrate_modules 3 2 integrate_heap)))"
  have v: "origin_at ?h4 = origin_at integrate_heap"
    "\<And>a. c_origins (chunk_at ?h4 a) = c_origins (chunk_at integrate_heap a)"
    using origins_view_eqD [OF integrate_before_origins [of 3 2 "''merged''" integrate_heap]]
    by simp_all
  have "origin_at (snd (integrate 3 2 ''merged'' integrate_heap))
      = origin_at (integrate_origins 3 2 ''merged'' ?h4)"
    using origins_view_eqD [OF integrate_cleanup_frame(2)]
    by (simp add: integrate_def Let_def integrate_heap_facts)
  then have "o_reasons (origin_at (snd (integrate 3 2 ''merged'' integrate_heap)) 11)
      = Some [''merged'']"
    by (simp add: integrate_origins_result(2) v integrate_heap_facts add_reason_def)
  then show ?thesis
    by (simp add: integrate_def integrate_heap_facts)
qed

section \<open>getIdentForChunk\<close>

lemma block_heap_blocks:
  "block_at block_heap 5 = (block_at empty_heap 5)\<lparr>b_identifier := Some ''m'', b_blocks := [6, 7]\<rparr>"
  "block_at block_heap 7 = (block_at empty_heap 7)\<lparr>b_parent := Some 5, b_blocks := [8]\<rparr>"
  "block_at block_heap 8 = (block_at empty_heap 8)\<lparr>b_identifier := Some ''b'', b_parent := Some 7,
                b_chunks := Some [2, 3]\<rparr>"
  by (simp_all add: block_heap_def)

lemma show_small: "show_int 0 = ''0''" "show_int 1 = ''1''" "show_int (-1) = ''-1''"
  by (simp_all add: show_int_def digit_def)

lemma empty_block: "block_at empty_heap b = \<lparr>b_identifier = None, b_parent = None, b_blocks = [],
                         b_chunks = None, b_chunkReason = None\<rparr>"
  by (simp add: empty_heap_def)

text \<open>
  Claim C9, at block 8 of the block tree and its second chunk.  The claim asks for one
  segment per ancestor that places that ancestor among its parent's children: block 7
  is child 1 of module 5, which has one more child, so the string would be \<open>b:1/1:1\<close>.
  The code computes, once for each of the two ancestors, the place of block 8 itself
  among the children of block 7.
\<close>

theorem getIdentForChunk_repeats_segment:
  "getIdentForChunk (\<lambda>c i. i) 8 3 ''ctx'' block_heap = Some (Inr (Some ''b:0/0:0/0:1''))
   \<and> getIdentForChunk_spec (\<lambda>c i. i) 8 3 ''ctx'' block_heap = Some (Some ''b:1/1:1'')"
  by (simp add: getIdentForChunk_def getIdentForChunk_spec_def block_heap_blocks empty_block
    ident_loop.simps ancestor_segments.simps show_small)

section \<open>The loops leave the set they iterate alone\<close>

text \<open>
  The loops over a set are folds over the members present at the start.  This is what
  \<^verbatim>\<open>Set.prototype.forEach\<close> does as long as the body does not change the set: for a
  member of the iterated set, each loop body leaves that set as it is.
\<close>

lemma remove_connect_keeps_iterated:
  assumes "chunk \<in> children h this"
  shows "c_chunks (chunk_at (remove_connect this parentChunk chunk h) this)
           = c_chunks (chunk_at h this)"
  using assms
  by (auto simp: remove_connect_def addChunk_def addParent_def SortableSet_has_def)

lemma remove_connect_fold_keeps_parents:
  assumes "parentChunk \<in> parents h this"
  shows "c_parents (chunk_at (fold (remove_connect this parentChunk) cs h) this)
           = c_parents (chunk_at h this)"
  using assms
proof (induction cs arbitrary: h)
  case Nil
  show ?case by simp
next
  case (Cons c cs)
  have 1: "c_parents (chunk_at (remove_connect this parentChunk c h) this)
      = c_parents (chunk_at h this)"
    using Cons.prems
    by (auto simp: remove_connect_def addChunk_def addParent_def SortableSet_has_def)
  then have "parentChunk \<in> parents (remove_connect this parentChunk c h) this"
    using Cons.prems unfolding parents_def by simp
  from Cons.IH [OF this] 1 show ?case by simp
qed

lemma remove_parent_keeps_iterated:
  assumes "parentChunk \<in> parents h this"
  shows "c_parents (chunk_at (remove_parent this parentChunk h) this)
           = c_parents (chunk_at h this)"
proof -
  let ?h1 = "upd_chunk parentChunk
      (\<lambda>c. c\<lparr>c_chunks := SortableSet_delete this (c_chunks c)\<rparr>) h"
  have p: "c_parents (chunk_at ?h1 this) = c_parents (chunk_at h this)"
    by simp
  then have "parentChunk \<in> parents ?h1 this"
    using assms unfolding parents_def by auto
  from remove_connect_fold_keeps_parents [OF this] p show ?thesis
    by (simp add: remove_parent_def Let_def del: chunk_at_upd_chunk)
qed

lemma remove_children_keeps_iterated:
  "c_chunks (chunk_at (upd_chunk chunk
       (\<lambda>c. c\<lparr>c_parents := SortableSet_delete this (c_parents c)\<rparr>) h) this)
     = c_chunks (chunk_at h this)"
  by simp

lemma replaceChunk_keeps_iterated:
  assumes "parentChunk \<in> parents h otherChunk"
  shows "c_parents (chunk_at (replaceChunk parentChunk otherChunk this h) otherChunk)
           = c_parents (chunk_at h otherChunk)"
  using assms
  by (auto simp: replaceChunk_def Let_def case_prod_beta addChunk_def addParent_def
      SortableSet_has_def)

lemma replaceParentChunk_keeps_iterated:
  assumes "chunk \<in> children h otherChunk"
  shows "c_chunks (chunk_at (replaceParentChunk chunk otherChunk this h) otherChunk)
           = c_chunks (chunk_at h otherChunk)"
  using assms
  by (auto simp: replaceParentChunk_def Let_def case_prod_beta addChunk_def addParent_def
      SortableSet_has_def)

lemma split_child_keeps_iterated:
  assumes "chunk \<in> children h this"
  shows "c_chunks (chunk_at (split_child newChunk chunk h) this) = c_chunks (chunk_at h this)"
  using assms
  by (auto simp: split_child_def addChunk_def addParent_def SortableSet_has_def)

lemma split_parent_keeps_iterated:
  assumes "parentChunk \<in> parents h this"
  shows "c_parents (chunk_at (split_parent newChunk parentChunk h) this)
           = c_parents (chunk_at h this)"
  using assms
  by (auto simp: split_parent_def addChunk_def addParent_def SortableSet_has_def)

section \<open>removeChunk and removeParent on the edge relation\<close>

lemma removeChunk_absent:
  "b \<notin> children h a \<Longrightarrow> removeChunk a b h = (False, h)"
  by (subst removeChunk.simps) (simp add: SortableSet_has_def)

lemma removeParent_absent:
  "b \<notin> parents h a \<Longrightarrow> removeParent a b h = (False, h)"
  by (subst removeParent.simps) (simp add: SortableSet_has_def)

lemma removeChunk_unfold:
  "snd (removeChunk a b h) =
     (if b \<in> children h a
      then (if a \<in> parents h b
            then upd_chunk b (\<lambda>c. c\<lparr>c_parents := SortableSet_delete a (c_parents c)\<rparr>)
                   (upd_chunk a (\<lambda>c. c\<lparr>c_chunks := SortableSet_delete b (c_chunks c)\<rparr>) h)
            else upd_chunk a (\<lambda>c. c\<lparr>c_chunks := SortableSet_delete b (c_chunks c)\<rparr>) h)
      else h)"
proof (cases "b \<in> children h a")
  case False
  then show ?thesis by (simp add: removeChunk_absent)
next
  case True
  let ?h1 = "upd_chunk a (\<lambda>c. c\<lparr>c_chunks := SortableSet_delete b (c_chunks c)\<rparr>) h"
  let ?h2 = "upd_chunk b (\<lambda>c. c\<lparr>c_parents := SortableSet_delete a (c_parents c)\<rparr>) ?h1"
  have p1: "parents ?h1 b = parents h b"
    by (simp add: parents_def del: set_items_edges parents_upd_chunk)
  have 1: "snd (removeChunk a b h) = snd (removeParent b a ?h1)"
    using True by (subst removeChunk.simps) (simp add: SortableSet_has_def)
  show ?thesis
  proof (cases "a \<in> parents h b")
    case False
    then have "removeParent b a ?h1 = (False, ?h1)"
      using p1 by (intro removeParent_absent) simp
    then show ?thesis using True False 1 by simp
  next
    case inp: True
    have "b \<notin> children ?h2 a"
      by (auto simp: children_def simp del: set_items_edges children_upd_chunk)
    then have 3: "removeChunk a b ?h2 = (False, ?h2)"
      by (rule removeChunk_absent)
    have "SortableSet_has (c_parents (chunk_at ?h1 b)) a"
      using inp p1 unfolding SortableSet_has_def parents_def by simp
    then have "snd (removeParent b a ?h1) = snd (removeChunk a b ?h2)"
      by (subst removeParent.simps) (simp del: chunk_at_upd_chunk)
    then show ?thesis using True inp 1 3 by simp
  qed
qed

lemma removeParent_unfold:
  "snd (removeParent a b h) =
     (if b \<in> parents h a
      then (if a \<in> children h b
            then upd_chunk b (\<lambda>c. c\<lparr>c_chunks := SortableSet_delete a (c_chunks c)\<rparr>)
                   (upd_chunk a (\<lambda>c. c\<lparr>c_parents := SortableSet_delete b (c_parents c)\<rparr>) h)
            else upd_chunk a (\<lambda>c. c\<lparr>c_parents := SortableSet_delete b (c_parents c)\<rparr>) h)
      else h)"
proof (cases "b \<in> parents h a")
  case False
  then show ?thesis by (simp add: removeParent_absent)
next
  case True
  let ?h1 = "upd_chunk a (\<lambda>c. c\<lparr>c_parents := SortableSet_delete b (c_parents c)\<rparr>) h"
  let ?h2 = "upd_chunk b (\<lambda>c. c\<lparr>c_chunks := SortableSet_delete a (c_chunks c)\<rparr>) ?h1"
  have p1: "children ?h1 b = children h b"
    by (simp add: children_def del: set_items_edges children_upd_chunk)
  have 1: "snd (removeParent a b h) = snd (removeChunk b a ?h1)"
    using True by (subst removeParent.simps) (simp add: SortableSet_has_def)
  show ?thesis
  proof (cases "a \<in> children h b")
    case False
    then have "removeChunk b a ?h1 = (False, ?h1)"
      using p1 by (intro removeChunk_absent) simp
    then show ?thesis using True False 1 by simp
  next
    case inp: True
    have "b \<notin> parents ?h2 a"
      by (auto simp: parents_def simp del: set_items_edges parents_upd_chunk)
    then have 3: "removeParent a b ?h2 = (False, ?h2)"
      by (rule removeParent_absent)
    have "SortableSet_has (c_chunks (chunk_at ?h1 b)) a"
      using inp p1 unfolding SortableSet_has_def children_def by simp
    then have "snd (removeChunk b a ?h1) = snd (removeParent a b ?h2)"
      by (subst removeChunk.simps) (simp del: chunk_at_upd_chunk)
    then show ?thesis using True inp 1 3 by simp
  qed
qed

lemma removeChunk_edges:
  "children (snd (removeChunk a b h)) x = (if x = a then children h a - {b} else children h x)"
  "parents (snd (removeChunk a b h)) x
     = (if x = b \<and> b \<in> children h a then parents h b - {a} else parents h x)"
  by (auto simp: removeChunk_unfold)

lemma removeParent_edges:
  "parents (snd (removeParent a b h)) x = (if x = a then parents h a - {b} else parents h x)"
  "children (snd (removeParent a b h)) x
     = (if x = b \<and> b \<in> parents h a then children h b - {a} else children h x)"
  by (auto simp: removeParent_unfold)

section \<open>Operations that leave the edge sets alone\<close>

lemma edges_view_eqD:
  assumes "edges_view h' = edges_view h"
  shows "children h' = children h" "parents h' = parents h"
    "symmetric h' = symmetric h" "duplicate_free h' = duplicate_free h"
proof -
  have e: "items (c_chunks (chunk_at h' a)) = items (c_chunks (chunk_at h a))
      \<and> items (c_parents (chunk_at h' a)) = items (c_parents (chunk_at h a))" for a
    using fun_cong [OF assms, of a] by (simp add: edges_view_def)
  show c: "children h' = children h"
    by (rule ext) (simp add: children_def e del: set_items_edges)
  show p: "parents h' = parents h"
    by (rule ext) (simp add: parents_def e del: set_items_edges)
  show "symmetric h' = symmetric h"
    by (simp add: symmetric_def c p)
  show "duplicate_free h' = duplicate_free h"
    by (simp add: duplicate_free_def e)
qed

lemma edges_view_upd_chunk:
  "(\<And>c. items (c_chunks (f c)) = items (c_chunks c)) \<Longrightarrow>
   (\<And>c. items (c_parents (f c)) = items (c_parents c)) \<Longrightarrow>
   edges_view (upd_chunk a f h) = edges_view h"
  by (auto simp: edges_view_def)

lemma edges_view_upd_other [simp]:
  "edges_view (upd_block b g h) = edges_view h"
  "edges_view (upd_module m k h) = edges_view h"
  "edges_view (upd_origin r q h) = edges_view h"
  by (simp_all add: edges_view_def)

lemma prims_edges_view [simp]:
  "edges_view (snd (addModule a m h)) = edges_view h"
  "edges_view (snd (addBlock a b h)) = edges_view h"
  "edges_view (snd (Module_removeChunk m a h)) = edges_view h"
  "edges_view (Module_addChunk m a h) = edges_view h"
  "edges_view (Module_rewriteChunkInReasons m a as h) = edges_view h"
  "edges_view (Entrypoint_insertChunk e n a h) = edges_view h"
  by (simp_all add: addModule_def addBlock_def Module_removeChunk_def Module_addChunk_def
      Module_rewriteChunkInReasons_def Entrypoint_insertChunk_def edges_view_upd_chunk
      case_prod_beta)
     (simp add: edges_view_def)

lemma stages_edges_view [simp]:
  "edges_view (moveModule a m b h) = edges_view h"
  "edges_view (integrate_modules this other h) = edges_view h"
  "edges_view (integrate_block this other r b h) = edges_view h"
  "edges_view (integrate_blocks this other r h) = edges_view h"
  "edges_view (integrate_origins this other r h) = edges_view h"
  "edges_view (remove_modules X h) = edges_view h"
  by (simp_all add: moveModule_def integrate_modules_def integrate_block_def integrate_blocks_def
      integrate_origins_def integrate_origin_def remove_modules_def Let_def edges_view_upd_chunk
      fold_preserves)

lemma split_blocks_edges_view [simp]:
  "edges_view (heap_of (split_blocks n bs h)) = edges_view h"
  by (induction bs arbitrary: h) (simp_all add: Let_def edges_view_upd_chunk split: option.splits)

section \<open>No member twice\<close>

lemma fold_invariant: "(\<And>x h. P h \<Longrightarrow> P (f x h)) \<Longrightarrow> P h \<Longrightarrow> P (fold f xs h)"
  by (induction xs arbitrary: h) simp_all

lemma duplicate_free_upd_chunk:
  "duplicate_free h \<Longrightarrow>
   (\<And>c. distinct (items (c_chunks c)) \<Longrightarrow> distinct (items (c_chunks (f c)))) \<Longrightarrow>
   (\<And>c. distinct (items (c_parents c)) \<Longrightarrow> distinct (items (c_parents (f c)))) \<Longrightarrow>
   duplicate_free (upd_chunk a f h)"
  by (simp add: duplicate_free_def)

lemma duplicate_free_add:
  "duplicate_free h \<Longrightarrow> duplicate_free (snd (addChunk p c h))"
  "duplicate_free h \<Longrightarrow> duplicate_free (snd (addParent c p h))"
  by (simp_all add: addChunk_def addParent_def duplicate_free_upd_chunk)

lemma duplicate_free_removeChunk:
  "duplicate_free h \<Longrightarrow> duplicate_free (snd (removeChunk a b h))"
  by (simp add: removeChunk_unfold duplicate_free_upd_chunk)

lemma duplicate_free_removeParent:
  "duplicate_free h \<Longrightarrow> duplicate_free (snd (removeParent a b h))"
  by (simp add: removeParent_unfold duplicate_free_upd_chunk)

lemma duplicate_free_replace:
  "duplicate_free h \<Longrightarrow> duplicate_free (replaceChunk a old new h)"
  "duplicate_free h \<Longrightarrow> duplicate_free (replaceParentChunk a old new h)"
  by (simp_all add: replaceChunk_def replaceParentChunk_def Let_def case_prod_beta
      duplicate_free_add duplicate_free_upd_chunk)

lemma duplicate_free_integrate:
  assumes "duplicate_free h"
  shows "duplicate_free (snd (integrate this other r h))"
proof -
  have 1: "duplicate_free (integrate_modules this other h)"
    using assms edges_view_eqD(4) [OF stages_edges_view(2)] by simp
  have 2: "duplicate_free (integrate_parents this other h')" if "duplicate_free h'" for h'
    unfolding integrate_parents_def
    by (rule duplicate_free_upd_chunk, rule fold_invariant [where P = duplicate_free])
       (simp_all add: duplicate_free_replace that)
  have 3: "duplicate_free (integrate_children this other h')" if "duplicate_free h'" for h'
    unfolding integrate_children_def
    by (rule duplicate_free_upd_chunk, rule fold_invariant [where P = duplicate_free])
       (simp_all add: duplicate_free_replace that)
  have 4: "duplicate_free (integrate_cleanup this other h')" if "duplicate_free h'" for h'
    unfolding integrate_cleanup_def
    by (rule duplicate_free_upd_chunk, rule duplicate_free_upd_chunk) (simp_all add: that)
  have 5: "duplicate_free (integrate_origins this other r (integrate_blocks this other r h'))"
    if "duplicate_free h'" for h'
    using that edges_view_eqD(4) [OF stages_edges_view(5)] edges_view_eqD(4) [OF stages_edges_view(4)]
    by simp
  show ?thesis
    using assms 1 2 3 4 5 by (simp add: integrate_def Let_def)
qed

lemma duplicate_free_split:
  assumes "duplicate_free h"
  shows "duplicate_free (heap_of (Chunk_split this n h))"
proof -
  have b: "duplicate_free (heap_of (split_blocks n bs h))" for bs
    using assms edges_view_eqD(4) [OF split_blocks_edges_view] by simp
  have e: "duplicate_free (split_edges this n h')" if "duplicate_free h'" for h'
  proof -
    have c: "duplicate_free (fold (split_child n) xs k)" if "duplicate_free k" for xs k
      by (rule fold_invariant [where P = duplicate_free])
         (simp_all add: split_child_def duplicate_free_add that)
    have p: "duplicate_free (fold (split_parent n) xs k)" if "duplicate_free k" for xs k
      by (rule fold_invariant [where P = duplicate_free])
         (simp_all add: split_parent_def duplicate_free_add that)
    have "edges_view (fold (\<lambda>e. Entrypoint_insertChunk e n this) es k) = edges_view k" for es k
      by (simp add: fold_preserves)
    then have "duplicate_free (fold (\<lambda>e. Entrypoint_insertChunk e n this) es k)"
      if "duplicate_free k" for es k
      using that edges_view_eqD(4) by blast
    then show ?thesis
      using c p that by (simp add: split_edges_def Let_def)
  qed
  show ?thesis
  proof (cases "split_blocks n (c_blocks (chunk_at h this)) h")
    case (Inl e')
    then show ?thesis using b [of "c_blocks (chunk_at h this)"] by (simp add: Chunk_split_def)
  next
    case (Inr h1)
    then show ?thesis
      using b [of "c_blocks (chunk_at h this)"] e [of h1] by (simp add: Chunk_split_def)
  qed
qed

section \<open>Symmetry among the chunks that have not been removed\<close>

lemma live_symmetric_empty: "live_symmetric {} h = symmetric h"
  by (simp add: live_symmetric_def symmetric_def)

lemma live_symmetric_edges_view:
  assumes "edges_view h' = edges_view h"
  shows "live_symmetric D h' = live_symmetric D h"
  using edges_view_eqD(1,2) [OF assms] by (simp add: live_symmetric_def)

lemma live_connect:
  "live_symmetric D h \<Longrightarrow> p \<notin> D \<Longrightarrow> c \<notin> D \<Longrightarrow>
   live_symmetric D (snd (addParent c p (snd (addChunk p c h))))"
  unfolding live_symmetric_def by auto

lemma live_removeChunk:
  "live_symmetric D h \<Longrightarrow> live_symmetric D (snd (removeChunk a b h))"
  unfolding live_symmetric_def by (auto simp: removeChunk_edges)

lemma live_removeParent:
  "live_symmetric D h \<Longrightarrow> live_symmetric D (snd (removeParent a b h))"
  unfolding live_symmetric_def by (auto simp: removeParent_edges)

lemma replaceChunk_edges:
  "children (replaceChunk P oth T h) a
     = (if a = P then (children h P - {oth}) \<union> (if P \<noteq> T \<and> P \<notin> parents h T then {T} else {})
        else children h a)"
  "parents (replaceChunk P oth T h) b
     = (if b = T \<and> P \<noteq> T then insert P (parents h T) else parents h b)"
  by (auto simp: replaceChunk_def Let_def case_prod_beta addParent_def addChunk_def
      SortableSet_has_def)

lemma replaceParentChunk_edges:
  "parents (replaceParentChunk C oth T h) b
     = (if b = C then (parents h C - {oth}) \<union> (if C \<noteq> T \<and> C \<notin> children h T then {T} else {})
        else parents h b)"
  "children (replaceParentChunk C oth T h) a
     = (if a = T \<and> C \<noteq> T then insert C (children h T) else children h a)"
  by (auto simp: replaceParentChunk_def Let_def case_prod_beta addParent_def addChunk_def
      SortableSet_has_def)

lemma integrate_parents_loop:
  assumes "\<forall>a b. b \<noteq> oth \<longrightarrow> ((a \<notin> D \<and> b \<in> children h a) \<longleftrightarrow> (b \<notin> D \<and> a \<in> parents h b))"
    and "\<forall>a. a \<notin> D \<and> oth \<in> children h a \<longrightarrow> a \<in> set ps"
    and "T = oth \<longrightarrow> set ps \<subseteq> parents h oth"
    and "set ps \<inter> D = {}" "T \<notin> D"
  shows "(\<forall>a b. b \<noteq> oth \<longrightarrow>
            ((a \<notin> D \<and> b \<in> children (fold (\<lambda>P. replaceChunk P oth T) ps h) a)
             \<longleftrightarrow> (b \<notin> D \<and> a \<in> parents (fold (\<lambda>P. replaceChunk P oth T) ps h) b)))
    \<and> (\<forall>a. a \<notin> D \<longrightarrow> oth \<notin> children (fold (\<lambda>P. replaceChunk P oth T) ps h) a)"
  using assms
proof (induction ps arbitrary: h)
  case Nil
  then show ?case by auto
next
  case (Cons P ps)
  let ?h = "replaceChunk P oth T h"
  have P: "P \<notin> D" using Cons.prems(4) by auto
  have 1: "\<forall>a b. b \<noteq> oth \<longrightarrow> ((a \<notin> D \<and> b \<in> children ?h a) \<longleftrightarrow> (b \<notin> D \<and> a \<in> parents ?h b))"
    using Cons.prems(1,3,5) P by (auto simp: replaceChunk_edges)
  have 2: "\<forall>a. a \<notin> D \<and> oth \<in> children ?h a \<longrightarrow> a \<in> set ps"
    using Cons.prems(2,3) by (auto simp: replaceChunk_edges)
  have 3: "T = oth \<longrightarrow> set ps \<subseteq> parents ?h oth"
    using Cons.prems(3) by (auto simp: replaceChunk_edges)
  have 4: "set ps \<inter> D = {}" using Cons.prems(4) by auto
  show ?case
    using Cons.IH [OF 1 2 3 4 Cons.prems(5)] by simp
qed

lemma integrate_children_loop:
  assumes "\<forall>a b. a \<noteq> oth \<longrightarrow> ((a \<notin> D \<and> b \<in> children h a) \<longleftrightarrow> (b \<notin> D \<and> a \<in> parents h b))"
    and "\<forall>b. b \<notin> D \<and> oth \<in> parents h b \<longrightarrow> b \<in> set cs"
    and "T = oth \<longrightarrow> set cs \<subseteq> children h oth"
    and "set cs \<inter> D = {}" "T \<notin> D"
  shows "(\<forall>a b. a \<noteq> oth \<longrightarrow>
            ((a \<notin> D \<and> b \<in> children (fold (\<lambda>C. replaceParentChunk C oth T) cs h) a)
             \<longleftrightarrow> (b \<notin> D \<and> a \<in> parents (fold (\<lambda>C. replaceParentChunk C oth T) cs h) b)))
    \<and> (\<forall>b. b \<notin> D \<longrightarrow> oth \<notin> parents (fold (\<lambda>C. replaceParentChunk C oth T) cs h) b)"
  using assms
proof (induction cs arbitrary: h)
  case Nil
  then show ?case by auto
next
  case (Cons C cs)
  let ?h = "replaceParentChunk C oth T h"
  have C: "C \<notin> D" using Cons.prems(4) by auto
  have 1: "\<forall>a b. a \<noteq> oth \<longrightarrow> ((a \<notin> D \<and> b \<in> children ?h a) \<longleftrightarrow> (b \<notin> D \<and> a \<in> parents ?h b))"
    using Cons.prems(1,3,5) C by (auto simp: replaceParentChunk_edges)
  have 2: "\<forall>b. b \<notin> D \<and> oth \<in> parents ?h b \<longrightarrow> b \<in> set cs"
    using Cons.prems(2,3) by (auto simp: replaceParentChunk_edges)
  have 3: "T = oth \<longrightarrow> set cs \<subseteq> children ?h oth"
    using Cons.prems(3) by (auto simp: replaceParentChunk_edges)
  have 4: "set cs \<inter> D = {}" using Cons.prems(4) by auto
  show ?case
    using Cons.IH [OF 1 2 3 4 Cons.prems(5)] by simp
qed

lemma integrate_children_loop_keeps:
  assumes "oth \<notin> set cs" "\<forall>a. a \<notin> D \<longrightarrow> oth \<notin> children h a"
  shows "\<forall>a. a \<notin> D \<longrightarrow> oth \<notin> children (fold (\<lambda>C. replaceParentChunk C oth T) cs h) a"
  using assms
proof (induction cs arbitrary: h)
  case Nil
  then show ?case by simp
next
  case (Cons C cs)
  have "\<forall>a. a \<notin> D \<longrightarrow> oth \<notin> children (replaceParentChunk C oth T h) a"
    using Cons.prems by (auto simp: replaceParentChunk_edges)
  then show ?case
    using Cons.IH [of "replaceParentChunk C oth T h"] Cons.prems(1) by simp
qed

lemma live_integrate_parents:
  assumes "live_symmetric D h" "T \<notin> D" "oth \<notin> D"
  shows "live_symmetric D (integrate_parents T oth h)"
    and "\<forall>a. a \<notin> D \<longrightarrow> oth \<notin> children (integrate_parents T oth h) a"
proof -
  have l: "(\<forall>a b. b \<noteq> oth \<longrightarrow>
            ((a \<notin> D \<and> b \<in> children (fold (\<lambda>P. replaceChunk P oth T) (items (c_parents (chunk_at h oth))) h) a)
             \<longleftrightarrow> (b \<notin> D \<and> a \<in> parents (fold (\<lambda>P. replaceChunk P oth T) (items (c_parents (chunk_at h oth))) h) b)))
    \<and> (\<forall>a. a \<notin> D \<longrightarrow> oth \<notin> children (fold (\<lambda>P. replaceChunk P oth T) (items (c_parents (chunk_at h oth))) h) a)"
    using assms by (intro integrate_parents_loop) (auto simp: live_symmetric_def)
  show "live_symmetric D (integrate_parents T oth h)"
    using l assms(3) by (auto simp: live_symmetric_def integrate_parents_def)
  show "\<forall>a. a \<notin> D \<longrightarrow> oth \<notin> children (integrate_parents T oth h) a"
    using l by (auto simp: integrate_parents_def)
qed

lemma live_integrate_children:
  assumes "live_symmetric D h" "T \<notin> D" "oth \<notin> D"
  shows "live_symmetric D (integrate_children T oth h)"
    and "\<forall>b. b \<notin> D \<longrightarrow> oth \<notin> parents (integrate_children T oth h) b"
    and "(\<forall>a. a \<notin> D \<longrightarrow> oth \<notin> children h a)
         \<Longrightarrow> \<forall>a. a \<notin> D \<longrightarrow> oth \<notin> children (integrate_children T oth h) a"
proof -
  have l: "(\<forall>a b. a \<noteq> oth \<longrightarrow>
            ((a \<notin> D \<and> b \<in> children (fold (\<lambda>C. replaceParentChunk C oth T) (items (c_chunks (chunk_at h oth))) h) a)
             \<longleftrightarrow> (b \<notin> D \<and> a \<in> parents (fold (\<lambda>C. replaceParentChunk C oth T) (items (c_chunks (chunk_at h oth))) h) b)))
    \<and> (\<forall>b. b \<notin> D \<longrightarrow> oth \<notin> parents (fold (\<lambda>C. replaceParentChunk C oth T) (items (c_chunks (chunk_at h oth))) h) b)"
    using assms by (intro integrate_children_loop) (auto simp: live_symmetric_def)
  show "live_symmetric D (integrate_children T oth h)"
    using l assms(3) by (auto simp: live_symmetric_def integrate_children_def)
  show "\<forall>b. b \<notin> D \<longrightarrow> oth \<notin> parents (integrate_children T oth h) b"
    using l by (auto simp: integrate_children_def)
  assume n: "\<forall>a. a \<notin> D \<longrightarrow> oth \<notin> children h a"
  then have "oth \<notin> set (items (c_chunks (chunk_at h oth)))"
    using assms(3) by simp
  then have "\<forall>a. a \<notin> D \<longrightarrow> oth \<notin> children (fold (\<lambda>C. replaceParentChunk C oth T)
      (items (c_chunks (chunk_at h oth))) h) a"
    using n by (rule integrate_children_loop_keeps)
  then show "\<forall>a. a \<notin> D \<longrightarrow> oth \<notin> children (integrate_children T oth h) a"
    by (auto simp: integrate_children_def)
qed

lemma live_integrate_cleanup:
  assumes "live_symmetric D h" "T \<notin> D" "oth \<notin> D"
    "\<forall>a. a \<notin> D \<longrightarrow> oth \<notin> children h a" "\<forall>b. b \<notin> D \<longrightarrow> oth \<notin> parents h b"
  shows "live_symmetric D (integrate_cleanup T oth h)"
  using assms unfolding live_symmetric_def integrate_cleanup_def by auto

lemma live_integrate:
  assumes "live_symmetric D h" "T \<notin> D" "oth \<notin> D"
  shows "live_symmetric D (snd (integrate T oth r h))"
proof (cases "canBeIntegrated T oth h")
  case False
  then show ?thesis using assms by (simp add: integrate_def)
next
  case True
  let ?h1 = "integrate_modules T oth h"
  let ?h2 = "integrate_parents T oth ?h1"
  let ?h3 = "integrate_children T oth ?h2"
  let ?h5 = "integrate_origins T oth r (integrate_blocks T oth r ?h3)"
  have s1: "live_symmetric D ?h1"
    using assms(1) live_symmetric_edges_view [OF stages_edges_view(2)] by simp
  note p = live_integrate_parents [OF s1 assms(2,3)]
  note c = live_integrate_children [OF p(1) assms(2,3)]
  have e5: "edges_view ?h5 = edges_view ?h3" by simp
  have s5: "live_symmetric D ?h5"
    using c(1) live_symmetric_edges_view [OF e5] by simp
  have n5: "\<forall>a. a \<notin> D \<longrightarrow> oth \<notin> children ?h5 a" "\<forall>b. b \<notin> D \<longrightarrow> oth \<notin> parents ?h5 b"
    using c(3) [OF p(2)] c(2) edges_view_eqD(1,2) [OF e5] by simp_all
  show ?thesis
    using True live_integrate_cleanup [OF s5 assms(2,3) n5] by (simp add: integrate_def Let_def)
qed

lemma live_split_edges:
  assumes "live_symmetric D h" "this \<notin> D" "n \<notin> D"
  shows "live_symmetric D (split_edges this n h)"
proof -
  have c: "live_symmetric D (fold (split_child n) xs k)"
    if "live_symmetric D k" "set xs \<inter> D = {}" for xs k
    using that
  proof (induction xs arbitrary: k)
    case Nil
    then show ?case by simp
  next
    case (Cons x xs)
    have "live_symmetric D (split_child n x k)"
      unfolding split_child_def using Cons.prems assms(3) by (intro live_connect) auto
    then show ?case using Cons.IH [of "split_child n x k"] Cons.prems(2) by simp
  qed
  have p: "live_symmetric D (fold (split_parent n) xs k)"
    if "live_symmetric D k" "set xs \<inter> D = {}" for xs k
    using that
  proof (induction xs arbitrary: k)
    case Nil
    then show ?case by simp
  next
    case (Cons x xs)
    have "live_symmetric D (split_parent n x k)"
      unfolding split_parent_def using Cons.prems assms(3) by (intro live_connect) auto
    then show ?case using Cons.IH [of "split_parent n x k"] Cons.prems(2) by simp
  qed
  have "edges_view (fold (\<lambda>e. Entrypoint_insertChunk e n this) es k) = edges_view k" for es k
    by (simp add: fold_preserves)
  then have e: "live_symmetric D (fold (\<lambda>e. Entrypoint_insertChunk e n this) es k)"
    if "live_symmetric D k" for es k
    using that live_symmetric_edges_view by blast
  let ?h1 = "fold (split_child n) (items (c_chunks (chunk_at h this))) h"
  have 1: "live_symmetric D ?h1"
    using assms(1,2) by (intro c) (auto simp: live_symmetric_def)
  have 2: "live_symmetric D (fold (split_parent n) (items (c_parents (chunk_at ?h1 this))) ?h1)"
    using 1 assms(2) by (intro p) (auto simp: live_symmetric_def)
  show ?thesis
    using e [OF 2] by (simp add: split_edges_def Let_def)
qed

lemma live_split:
  assumes "live_symmetric D h" "this \<notin> D" "n \<notin> D"
  shows "live_symmetric D (heap_of (Chunk_split this n h))"
proof -
  have b: "live_symmetric D (heap_of (split_blocks n bs h))" for bs
    using assms(1) live_symmetric_edges_view [OF split_blocks_edges_view] by simp
  show ?thesis
  proof (cases "split_blocks n (c_blocks (chunk_at h this)) h")
    case (Inl e')
    then show ?thesis using b [of "c_blocks (chunk_at h this)"] by (simp add: Chunk_split_def)
  next
    case (Inr h1)
    then show ?thesis
      using b [of "c_blocks (chunk_at h this)"] live_split_edges [of D h1 this n] assms(2,3)
      by (simp add: Chunk_split_def)
  qed
qed

lemma live_remove:
  assumes "live_symmetric D h" "X \<notin> D" "X \<notin> children h X" "X \<notin> parents h X"
  shows "live_symmetric (insert X D) (heap_of (Chunk_remove X r h))"
  using assms unfolding live_symmetric_def
  by (auto simp: Chunk_remove_edges [OF assms(3,4)])

section \<open>checkConstraints\<close>

lemma indexOf_bounds: "- 1 \<le> indexOf xs v"
  by (induction xs) (auto simp: Let_def)

lemma indexOf_neg_iff: "indexOf xs v < 0 \<longleftrightarrow> v \<notin> set xs"
  using indexOf_bounds [of _ v] by (induction xs) (auto simp: Let_def)

lemma indexOf_append:
  "v \<notin> set pre \<Longrightarrow> indexOf (pre @ v # rest) v = int (length pre)"
  by (induction pre) (auto simp: Let_def)

lemma check_children_None_iff:
  "distinct (pre @ rest) \<Longrightarrow>
   check_children chunk (pre @ rest) rest (length pre) h = None
     \<longleftrightarrow> (\<forall>c\<in>set rest. chunk \<in> parents h c)"
proof (induction rest arbitrary: pre)
  case Nil
  show ?case by simp
next
  case (Cons c rest)
  have i: "indexOf (pre @ c # rest) c = int (length pre)"
    using Cons.prems by (intro indexOf_append) simp
  have "distinct ((pre @ [c]) @ rest)" using Cons.prems by simp
  from Cons.IH [OF this] show ?case
    by (simp add: i SortableSet_has_def)
qed

lemma check_parents_None_iff:
  "distinct (pre @ rest) \<Longrightarrow>
   check_parents chunk (pre @ rest) rest (length pre) h = None
     \<longleftrightarrow> (\<forall>p\<in>set rest. chunk \<in> children h p)"
proof (induction rest arbitrary: pre)
  case Nil
  show ?case by simp
next
  case (Cons p rest)
  have i: "indexOf (pre @ p # rest) p = int (length pre)"
    using Cons.prems by (intro indexOf_append) simp
  have "distinct ((pre @ [p]) @ rest)" using Cons.prems by simp
  from Cons.IH [OF this] show ?case
    by (simp add: i indexOf_neg_iff)
qed

lemma checkConstraints_None_iff:
  assumes "duplicate_free h"
  shows "checkConstraints c h = None
    \<longleftrightarrow> (\<forall>x\<in>children h c. c \<in> parents h x) \<and> (\<forall>p\<in>parents h c. c \<in> children h p)"
proof -
  have d: "distinct ([] @ items (c_chunks (chunk_at h c)))" "distinct ([] @ items (c_parents (chunk_at h c)))"
    using assms by (simp_all add: duplicate_free_def)
  show ?thesis
    using check_children_None_iff [OF d(1), of c h] check_parents_None_iff [OF d(2), of c h]
    by (auto simp: checkConstraints_def Let_def split: option.splits)
qed

lemma checkConstraints_symmetric:
  "duplicate_free h \<Longrightarrow> symmetric h \<Longrightarrow> checkConstraints c h = None"
  by (simp add: checkConstraints_None_iff symmetric_def)


section \<open>No self-edges\<close>

lemma self_free_edges_view:
  assumes "edges_view h' = edges_view h"
  shows "self_free D h' = self_free D h"
  using edges_view_eqD(1) [OF assms] by (simp add: self_free_def)

lemma self_free_connect:
  "self_free D h \<Longrightarrow> p \<noteq> c \<Longrightarrow> self_free D (snd (addParent c p (snd (addChunk p c h))))"
  by (auto simp: self_free_def)

lemma self_free_removeChunk: "self_free D h \<Longrightarrow> self_free D (snd (removeChunk a b h))"
  by (auto simp: self_free_def removeChunk_edges)

lemma self_free_removeParent: "self_free D h \<Longrightarrow> self_free D (snd (removeParent a b h))"
  by (auto simp: self_free_def removeParent_edges)

lemma self_free_replace:
  "self_free D h \<Longrightarrow> self_free D (replaceChunk P oth T h)"
  "self_free D h \<Longrightarrow> self_free D (replaceParentChunk C oth T h)"
  by (auto simp: self_free_def replaceChunk_edges replaceParentChunk_edges)

lemma self_free_integrate:
  assumes "self_free D h"
  shows "self_free D (snd (integrate T oth r h))"
proof -
  have 1: "self_free D (integrate_modules T oth h)"
    using assms self_free_edges_view [OF stages_edges_view(2)] by simp
  have 2: "self_free D (integrate_parents T oth k)" if "self_free D k" for k
  proof -
    have "self_free D (fold (\<lambda>P. replaceChunk P oth T) ps k)" for ps
      by (rule fold_invariant [where P = "self_free D"]) (simp_all add: self_free_replace that)
    then show ?thesis
      by (auto simp: integrate_parents_def self_free_def)
  qed
  have 3: "self_free D (integrate_children T oth k)" if "self_free D k" for k
  proof -
    have "self_free D (fold (\<lambda>C. replaceParentChunk C oth T) cs k)" for cs
      by (rule fold_invariant [where P = "self_free D"]) (simp_all add: self_free_replace that)
    then show ?thesis
      by (auto simp: integrate_children_def self_free_def)
  qed
  have 4: "self_free D (integrate_cleanup T oth k)" if "self_free D k" for k
    using that by (auto simp: integrate_cleanup_def self_free_def)
  have 5: "self_free D (integrate_origins T oth r (integrate_blocks T oth r k))"
    if "self_free D k" for k
    using that self_free_edges_view [OF stages_edges_view(5)]
      self_free_edges_view [OF stages_edges_view(4)] by simp
  show ?thesis
    using assms 1 2 3 4 5 by (simp add: integrate_def Let_def)
qed

lemma split_child_fold:
  "children (fold (split_child n) xs h) a = (if a = n then children h n \<union> set xs else children h a)"
  "parents (fold (split_child n) xs h) b = (if b \<in> set xs then insert n (parents h b) else parents h b)"
  by (induction xs arbitrary: h) (auto simp: split_child_def)

lemma split_parent_fold:
  "children (fold (split_parent n) xs h) a = (if a \<in> set xs then insert n (children h a) else children h a)"
  "parents (fold (split_parent n) xs h) b = (if b = n then parents h n \<union> set xs else parents h b)"
  by (induction xs arbitrary: h) (auto simp: split_parent_def)

lemma split_edges_edges:
  "children (split_edges this n h) a
     = (if a = n then children h n \<union> children h this else children h a)
       \<union> (if a \<in> parents h this \<union> (if this \<in> children h this then {n} else {}) then {n} else {})"
proof -
  have e: "edges_view (fold (\<lambda>e. Entrypoint_insertChunk e n this) es k) = edges_view k" for es k
    by (simp add: fold_preserves)
  show ?thesis
    by (auto simp: split_edges_def Let_def edges_view_eqD(1) [OF e] split_child_fold
        split_parent_fold)
qed

lemma self_free_split:
  assumes "self_free D h" "this \<notin> D" "n \<notin> children h this" "n \<notin> parents h this"
  shows "self_free D (heap_of (Chunk_split this n h))"
proof -
  have b: "edges_view (heap_of (split_blocks n bs h)) = edges_view h" for bs
    by simp
  have e: "self_free D (split_edges this n k)"
    if "edges_view k = edges_view h" for k
    using assms edges_view_eqD(1,2) [OF that]
    by (auto simp: self_free_def split_edges_edges)
  show ?thesis
  proof (cases "split_blocks n (c_blocks (chunk_at h this)) h")
    case (Inl e')
    then show ?thesis
      using assms(1) self_free_edges_view [OF b [of "c_blocks (chunk_at h this)"]]
      by (simp add: Chunk_split_def)
  next
    case (Inr h1)
    then show ?thesis
      using b [of "c_blocks (chunk_at h this)"] e [of h1] by (simp add: Chunk_split_def)
  qed
qed

lemma self_free_remove:
  assumes "self_free D h" "X \<notin> D" "children h X \<inter> parents h X = {}" "X \<notin> parents h X"
  shows "self_free (insert X D) (heap_of (Chunk_remove X r h))"
proof -
  have x: "X \<notin> children h X" using assms(1,2) by (simp add: self_free_def)
  show ?thesis
    using assms by (auto simp: self_free_def Chunk_remove_edges [OF x assms(4)])
qed

section \<open>No member twice, for remove\<close>

lemma duplicate_free_remove:
  assumes "duplicate_free h"
  shows "duplicate_free (heap_of (Chunk_remove X r h))"
proof -
  have 1: "duplicate_free (remove_modules X h)"
    using assms edges_view_eqD(4) [OF stages_edges_view(6)] by simp
  have c: "duplicate_free (fold (remove_connect X P) cs k)" if "duplicate_free k" for P cs k
    by (rule fold_invariant [where P = duplicate_free])
       (simp_all add: remove_connect_def duplicate_free_add that)
  have p: "duplicate_free (remove_parent X P k)" if "duplicate_free k" for P k
    unfolding remove_parent_def Let_def
    by (rule c, rule duplicate_free_upd_chunk) (simp_all add: that)
  have 2: "duplicate_free (remove_parents X k)" if "duplicate_free k" for k
    unfolding remove_parents_def
    by (rule fold_invariant [where P = duplicate_free]) (simp_all add: p that)
  have 3: "duplicate_free (remove_children X k)" if "duplicate_free k" for k
    unfolding remove_children_def
    by (rule fold_invariant [where P = duplicate_free])
       (simp_all add: duplicate_free_upd_chunk that)
  have "duplicate_free (remove_children X (remove_parents X (remove_modules X h)))"
    using 1 2 3 by simp
  then show ?thesis
    by (simp add: Chunk_remove_def Let_def duplicate_free_def chunk_at_remove_blocks)
qed

section \<open>The graph after a sequence of calls\<close>

lemma live_symmetric_no_self_parent:
  "live_symmetric D h \<Longrightarrow> self_free D h \<Longrightarrow> a \<notin> D \<Longrightarrow> a \<notin> parents h a"
  by (auto simp: live_symmetric_def self_free_def)

lemma run_call_graph_ok:
  assumes "graph_ok D h" "admissible c D h"
  shows "graph_ok (removed_by c D) (run_call c h)"
proof (cases c)
  case (Connect p x)
  then show ?thesis
    using assms by (simp add: graph_ok_def duplicate_free_add live_connect self_free_connect)
next
  case (RemoveChunk a b)
  then show ?thesis
    using assms
    by (simp add: graph_ok_def duplicate_free_removeChunk live_removeChunk self_free_removeChunk)
next
  case (RemoveParent a b)
  then show ?thesis
    using assms
    by (simp add: graph_ok_def duplicate_free_removeParent live_removeParent self_free_removeParent)
next
  case (Integrate T oth r)
  then show ?thesis
    using assms
    by (simp add: graph_ok_def duplicate_free_integrate live_integrate self_free_integrate)
next
  case (Split this n)
  then show ?thesis
    using assms
    by (simp add: graph_ok_def duplicate_free_split live_split self_free_split)
next
  case (Remove X r)
  have x: "X \<notin> D" "children h X \<inter> parents h X = {}"
    using assms(2) Remove by simp_all
  have s: "X \<notin> children h X" "X \<notin> parents h X"
    using assms(1) x(1) live_symmetric_no_self_parent [of D h X]
    by (simp_all add: graph_ok_def self_free_def)
  show ?thesis
    using assms(1) Remove x s
    by (simp add: graph_ok_def duplicate_free_remove live_remove self_free_remove)
qed

lemma run_graph_ok:
  "graph_ok D h \<Longrightarrow> admissible_run cs D h \<Longrightarrow>
   graph_ok (fold removed_by cs D) (fold run_call cs h)"
proof (induction cs arbitrary: D h)
  case Nil
  then show ?case by simp
next
  case (Cons c cs)
  have "graph_ok (removed_by c D) (run_call c h)"
    using Cons.prems by (intro run_call_graph_ok) simp_all
  then show ?case
    using Cons.IH [of "removed_by c D" "run_call c h"] Cons.prems(2) by simp
qed

lemma graph_ok_checkConstraints:
  "graph_ok D h \<Longrightarrow> c \<notin> D \<Longrightarrow> checkConstraints c h = None"
  by (auto simp: graph_ok_def checkConstraints_None_iff live_symmetric_def)

lemma empty_heap_edges [simp]: "children empty_heap a = {}" "parents empty_heap a = {}"
  by (simp_all add: children_def parents_def empty_heap_def new_Chunk_fields del: set_items_edges)

lemma cycle_heap_edges:
  "children cycle_heap 3 = {2}" "parents cycle_heap 3 = {2}"
  "children cycle_heap 2 = {3}" "parents cycle_heap 2 = {3}"
  by (simp_all add: cycle_heap_def children_def parents_def mk_chunk_fields Set_add_def
      del: set_items_edges)

lemma cycle_heap_ok:
  "symmetric cycle_heap" "duplicate_free cycle_heap" "\<forall>a. a \<notin> children cycle_heap a"
proof -
  have e: "children cycle_heap a = (if a = 3 then {2} else if a = 2 then {3} else {})"
    "parents cycle_heap a = (if a = 3 then {2} else if a = 2 then {3} else {})" for a
    by (simp_all add: cycle_heap_def children_def parents_def mk_chunk_fields new_Chunk_fields
        Set_add_def del: set_items_edges)
  show "symmetric cycle_heap"
    unfolding symmetric_def by (auto simp: e)
  show "\<forall>a. a \<notin> children cycle_heap a"
    by (auto simp: e)
  show "duplicate_free cycle_heap"
    by (simp add: duplicate_free_def cycle_heap_def mk_chunk_fields new_Chunk_fields Set_add_def)
qed

text \<open>
  Why the calls are restricted.  In a cycle of two chunks \<^verbatim>\<open>remove\<close> of one connects the
  other to itself; and the removed chunk keeps its stale edges, so that
  \<^verbatim>\<open>checkConstraints()\<close> raises on it.
\<close>

lemma remove_in_cycle_makes_self_edge:
  "3 \<in> children (heap_of (Chunk_remove 2 ''gone'' cycle_heap)) 3
   \<and> 3 \<in> parents (heap_of (Chunk_remove 2 ''gone'' cycle_heap)) 3"
  by (simp add: Chunk_remove_edges cycle_heap_edges)

lemma removed_chunk_fails_checkConstraints:
  "checkConstraints 2 (heap_of (Chunk_remove 2 ''merged'' remove_heap)) \<noteq> None"
proof -
  have d: "duplicate_free remove_heap"
    by (simp add: duplicate_free_def remove_heap_def mk_chunk_fields new_Chunk_fields Set_add_def)
  have e: "parents (heap_of (Chunk_remove 2 ''merged'' remove_heap)) 2 = {3}"
    "children (heap_of (Chunk_remove 2 ''merged'' remove_heap)) 3 = {4}"
    by (simp_all add: Chunk_remove_edges remove_heap_edges)
  show ?thesis
    using checkConstraints_None_iff [OF duplicate_free_remove [OF d], of 2 2 "''merged''"] e
    by simp
qed

text \<open>
  Claim C1, amended.  Start from a graph that is symmetric, holds no member of an edge
  set twice and has no self-edge, and make any sequence of calls in which \<^verbatim>\<open>addChunk\<close>
  and \<^verbatim>\<open>addParent\<close> come as matching pairs between two different chunks, \<^verbatim>\<open>split\<close> is given
  a chunk that is not a neighbour of the split chunk, \<^verbatim>\<open>remove\<close> is called on a chunk
  none of whose children is also its parent, and removed chunks are not used again
  (\<^verbatim>\<open>removeChunk\<close>, \<^verbatim>\<open>removeParent\<close> and \<^verbatim>\<open>integrate\<close> are unrestricted).  Then no edge set
  holds a member twice, the edges of the chunks that have not been removed are
  symmetric and lead to such chunks only, none of these chunks has a self-edge, and
  \<^verbatim>\<open>checkConstraints()\<close> raises on none of them.
\<close>

theorem call_sequences_keep_graph_consistent:
  assumes "symmetric h" "duplicate_free h" "\<forall>a. a \<notin> children h a"
    and "admissible_run calls {} h"
  shows "duplicate_free (fold run_call calls h)
    \<and> live_symmetric (fold removed_by calls {}) (fold run_call calls h)
    \<and> (\<forall>a. a \<notin> fold removed_by calls {} \<longrightarrow>
          a \<notin> children (fold run_call calls h) a \<and> a \<notin> parents (fold run_call calls h) a
          \<and> checkConstraints a (fold run_call calls h) = None)"
proof -
  have "graph_ok {} h"
    using assms(1-3) by (simp add: graph_ok_def live_symmetric_empty self_free_def)
  then have g: "graph_ok (fold removed_by calls {}) (fold run_call calls h)"
    using assms(4) by (rule run_graph_ok)
  then show ?thesis
    using graph_ok_checkConstraints [OF g] live_symmetric_no_self_parent
    by (auto simp: graph_ok_def self_free_def)
qed

theorem call_sequences_keep_graph_consistent_witness:
  "admissible_run example_calls {} empty_heap
   \<and> fold removed_by example_calls {} = {2}
   \<and> checkConstraints 3 (fold run_call example_calls empty_heap) = None
   \<and> checkConstraints 4 (fold run_call example_calls empty_heap) = None
   \<and> checkConstraints 5 (fold run_call example_calls empty_heap) = None"
proof -
  let ?h2 = "run_call (Connect 2 4) (run_call (Connect 3 2) empty_heap)"
  have e2: "children ?h2 2 = {4}" "parents ?h2 2 = {3}" "children ?h2 3 = {2}" "parents ?h2 3 = {}"
    by simp_all
  let ?h3 = "run_call (Remove 2 ''gone'') ?h2"
  have e3: "children ?h3 3 = {4}" "parents ?h3 3 = {}"
    using e2 by (simp_all add: Chunk_remove_edges)
  have a: "admissible_run example_calls {} empty_heap"
    unfolding example_calls_def admissible_run.simps admissible.simps removed_by.simps
    using e2 e3 by simp
  have s: "symmetric empty_heap" "duplicate_free empty_heap" "\<forall>a. a \<notin> children empty_heap a"
    by (simp_all add: symmetric_def)
       (simp add: duplicate_free_def empty_heap_def new_Chunk_fields)
  have d: "fold removed_by example_calls {} = {2}"
    by (simp add: example_calls_def)
  show ?thesis
    using call_sequences_keep_graph_consistent [OF s a] a d by simp
qed

text \<open>
  Claim C1 as stated fails: one \<^verbatim>\<open>addChunk\<close> on the graph without edges adds the child
  without the parent, and \<^verbatim>\<open>checkConstraints()\<close> raises on the chunk.
\<close>

theorem lone_addChunk_counterexample:
  "symmetric empty_heap
   \<and> \<not> symmetric (snd (addChunk 2 3 empty_heap))
   \<and> checkConstraints 2 (snd (addChunk 2 3 empty_heap)) = Some (ChildMissingParent 2 3)"
proof -
  have 1: "symmetric empty_heap" by (simp add: symmetric_def)
  have "3 \<in> children (snd (addChunk 2 3 empty_heap)) 2"
    "2 \<notin> parents (snd (addChunk 2 3 empty_heap)) 3"
    by simp_all
  then have 2: "\<not> symmetric (snd (addChunk 2 3 empty_heap))"
    unfolding symmetric_def by blast
  have i: "items (c_chunks (chunk_at (snd (addChunk 2 3 empty_heap)) 2)) = [3]"
    by (simp add: addChunk_def SortableSet_has_def empty_heap_def new_Chunk_fields Set_add_def)
  have 3: "checkConstraints 2 (snd (addChunk 2 3 empty_heap)) = Some (ChildMissingParent 2 3)"
    by (simp add: checkConstraints_def i SortableSet_has_def)
  show ?thesis using 1 2 3 by simp
qed

section \<open>remove on a chunk with a self-edge\<close>

text \<open>
  The graph built by the four pairs of calls is symmetric, holds no member twice and has
  no self-edge.  Removing chunk 5 from it leaves chunk 2 as its own child and parent.
\<close>

lemma selfloop_calls_graph:
  "symmetric (fold run_call selfloop_calls empty_heap)
   \<and> duplicate_free (fold run_call selfloop_calls empty_heap)
   \<and> (\<forall>a. a \<notin> children (fold run_call selfloop_calls empty_heap) a)"
proof -
  have g: "graph_ok {} empty_heap"
    by (simp add: graph_ok_def live_symmetric_def self_free_def)
       (simp add: duplicate_free_def empty_heap_def new_Chunk_fields)
  have a: "admissible_run selfloop_calls {} empty_heap"
    by (simp add: selfloop_calls_def)
  have r: "fold removed_by selfloop_calls {} = {}"
    by (simp add: selfloop_calls_def)
  show ?thesis
    using run_graph_ok [OF g a] by (simp add: r graph_ok_def live_symmetric_empty self_free_def)
qed

lemma reached_heap_self_edge:
  "items (c_chunks (chunk_at reached_heap 2)) = [4, 2]
   \<and> items (c_parents (chunk_at reached_heap 2)) = [3, 2]"
  unfolding reached_heap_def selfloop_calls_def by code_simp

text \<open>
  Claim C2, at the chunk 2 of that graph, with its parent 3 and its child 4.  After
  \<^verbatim>\<open>remove\<close> on chunk 2 the edge from 3 to 4 exists in both directions and 2 is no
  parent of 4, as the claim says; but chunk 2 is still in the child set of chunk 3,
  against the claim and against the comment \<^verbatim>\<open>remove this chunk from its parents\<close>:
  \<^verbatim>\<open>parentChunk._chunks.delete(this)\<close> is undone by \<^verbatim>\<open>parentChunk.addChunk(chunk)\<close> when
  the inner loop reaches the chunk itself among its children.
\<close>

theorem remove_puts_self_edged_chunk_back:
  "3 \<in> parents reached_heap 2 \<and> 4 \<in> children reached_heap 2
   \<and> 4 \<in> children (heap_of (Chunk_remove 2 ''merged'' reached_heap)) 3
   \<and> 3 \<in> parents (heap_of (Chunk_remove 2 ''merged'' reached_heap)) 4
   \<and> 2 \<notin> parents (heap_of (Chunk_remove 2 ''merged'' reached_heap)) 4
   \<and> 2 \<in> children (heap_of (Chunk_remove 2 ''merged'' reached_heap)) 3
   \<and> items (c_chunks (chunk_at (heap_of (Chunk_remove 2 ''merged'' reached_heap)) 3)) = [4, 2]"
  unfolding reached_heap_def selfloop_calls_def by code_simp

end
